theory Spec2Isabelle
  imports
    Complex_Main
    "HOL-Library.Sublist"
    "HOL-Library.Char_ord"
    "HOL-Library.List_Lexorder"
    "HOL-Library.Multiset"
    "HOL-Library.AList"
begin

section \<open>Python strings and lists\<close>

text \<open>
  A Python \<^verbatim>\<open>str\<close> is modelled as a \<^typ>\<open>string\<close> whose characters are the code points
  below 256. On that range \<^verbatim>\<open>str.lower\<close> maps \<^verbatim>\<open>A-Z\<close> and the Latin-1 capitals
  (\<^verbatim>\<open>0xC0-0xDE\<close> without \<^verbatim>\<open>0xD7\<close>) to the code point 32 above, which is the same
  character with bit 5 set, and keeps the length of the string. Strings are compared as
  Python compares them: lexicographically by code point.
\<close>

definition is_upper :: "char \<Rightarrow> bool" where
  "is_upper c = (let n = (of_char c :: nat) in
     (65 \<le> n \<and> n \<le> 90) \<or> (192 \<le> n \<and> n \<le> 222 \<and> n \<noteq> 215))"

fun lower_char :: "char \<Rightarrow> char" where
  "lower_char (Char b0 b1 b2 b3 b4 b5 b6 b7) =
     (if is_upper (Char b0 b1 b2 b3 b4 b5 b6 b7) then Char b0 b1 b2 b3 b4 True b6 b7
      else Char b0 b1 b2 b3 b4 b5 b6 b7)"

definition py_lower :: "string \<Rightarrow> string" where
  "py_lower s = map lower_char s"

definition isalnum :: "char \<Rightarrow> bool" where
  "isalnum c = (let n = (of_char c :: nat) in
     (48 \<le> n \<and> n \<le> 57) \<or> (65 \<le> n \<and> n \<le> 90) \<or> (97 \<le> n \<and> n \<le> 122) \<or>
     n = 170 \<or> n = 178 \<or> n = 179 \<or> n = 181 \<or> n = 185 \<or> n = 186 \<or>
     (188 \<le> n \<and> n \<le> 190) \<or> (192 \<le> n \<and> n \<le> 214) \<or>
     (216 \<le> n \<and> n \<le> 246) \<or> 248 \<le> n)"

definition isspace :: "char \<Rightarrow> bool" where
  "isspace c = (let n = (of_char c :: nat) in
     (9 \<le> n \<and> n \<le> 13) \<or> (28 \<le> n \<and> n \<le> 32) \<or> n = 133 \<or> n = 160)"

text \<open>\<^verbatim>\<open>s.strip()\<close>: whitespace removed at both ends.\<close>

definition py_strip :: "string \<Rightarrow> string" where
  "py_strip s = rev (dropWhile isspace (rev (dropWhile isspace s)))"

text \<open>
  \<^verbatim>\<open>s.find(sub, start)\<close> with \<^verbatim>\<open>start >= 0\<close>: the lowest index at or after \<open>start\<close>
  where \<open>sub\<close> begins; \<open>None\<close> stands for Python's \<^verbatim>\<open>-1\<close>. \<open>find_aux sub s i\<close> scans
  the rest \<open>s\<close> of the string, whose first character has index \<open>i\<close>.
\<close>

fun find_aux :: "string \<Rightarrow> string \<Rightarrow> nat \<Rightarrow> nat option" where
  "find_aux sub [] i = (if sub = [] then Some i else None)"
| "find_aux sub (c # cs) i =
     (if prefix sub (c # cs) then Some i else find_aux sub cs (Suc i))"

definition py_find :: "string \<Rightarrow> string \<Rightarrow> nat \<Rightarrow> nat option" where
  "py_find s sub start =
     (if length s < start then None else find_aux sub (drop start s) start)"

text \<open>\<^verbatim>\<open>sub in s\<close> on strings.\<close>

definition py_in :: "string \<Rightarrow> string \<Rightarrow> bool" where
  "py_in sub s = (py_find s sub 0 \<noteq> None)"

text \<open>
  \<^verbatim>\<open>s.count(sub)\<close>: the number of non-overlapping occurrences, found from left to right;
  after a match the scan resumes behind it. The counter \<open>k\<close> is the number of characters
  of the last match still to be skipped. For the empty \<open>sub\<close> Python returns
  \<^verbatim>\<open>len(s) + 1\<close>.
\<close>

fun count_aux :: "string \<Rightarrow> string \<Rightarrow> nat \<Rightarrow> nat" where
  "count_aux sub [] k = 0"
| "count_aux sub (c # cs) k =
     (if 0 < k then count_aux sub cs (k - 1)
      else if prefix sub (c # cs) then Suc (count_aux sub cs (length sub - 1))
      else count_aux sub cs 0)"

definition py_count :: "string \<Rightarrow> string \<Rightarrow> nat" where
  "py_count s sub = (if sub = [] then Suc (length s) else count_aux sub s 0)"

text \<open>
  \<^verbatim>\<open>s.replace(old, new)\<close>: every non-overlapping occurrence of \<open>old\<close>, from left to
  right, is replaced (Python's \<^verbatim>\<open>replace\<close> without a count replaces all of them).
\<close>

fun replace_aux :: "string \<Rightarrow> string \<Rightarrow> string \<Rightarrow> nat \<Rightarrow> string" where
  "replace_aux old new [] k = []"
| "replace_aux old new (c # cs) k =
     (if 0 < k then replace_aux old new cs (k - 1)
      else if prefix old (c # cs) then new @ replace_aux old new cs (length old - 1)
      else c # replace_aux old new cs 0)"

definition py_replace :: "string \<Rightarrow> string \<Rightarrow> string \<Rightarrow> string" where
  "py_replace s old new =
     (if old = [] then new @ concat (map (\<lambda>c. c # new) s) else replace_aux old new s 0)"

text \<open>\<^verbatim>\<open>s.split(sep)\<close> for a one-character separator: never the empty list.\<close>

fun py_split :: "char \<Rightarrow> string \<Rightarrow> string list" where
  "py_split sep [] = [] # []"
| "py_split sep (c # cs) =
     (if c = sep then [] # py_split sep cs
      else (case py_split sep cs of [] \<Rightarrow> [c] # [] | l # ls \<Rightarrow> (c # l) # ls))"

text \<open>\<^verbatim>\<open>s.rsplit(sep, 1)[0]\<close>: the part before the last separator, or all of \<open>s\<close>.\<close>

definition rsplit1_head :: "char \<Rightarrow> string \<Rightarrow> string" where
  "rsplit1_head sep s =
     (if sep \<in> set s then rev (tl (dropWhile (\<lambda>c. c \<noteq> sep) (rev s))) else s)"

text \<open>\<^verbatim>\<open>sep.join(parts)\<close>.\<close>

fun py_join :: "string \<Rightarrow> string list \<Rightarrow> string" where
  "py_join sep [] = []"
| "py_join sep [x] = x"
| "py_join sep (x # y # ys) = x @ sep @ py_join sep (y # ys)"

text \<open>
  \<^verbatim>\<open>xs[start:stop]\<close> for integer bounds: a negative bound counts from the end, and both
  bounds are clipped to the list, so a slice never raises.
\<close>

definition py_slice :: "'a list \<Rightarrow> int \<Rightarrow> int \<Rightarrow> 'a list" where
  "py_slice xs start stop =
     (let n = int (length xs);
          s = (if start < 0 then max 0 (n + start) else min start n);
          e = (if stop < 0 then max 0 (n + stop) else min stop n)
      in if s < e then take (nat (e - s)) (drop (nat s) xs) else [])"

text \<open>
  \<^verbatim>\<open>xs.sort(key=..., reverse=True)\<close> on keys that \<open>lt\<close> orders: Python reverses the
  list, sorts it stably in ascending order and reverses the result, so that elements with
  equal keys keep their order. The ascending sort is an insertion sort that puts an
  element before the first one that is not smaller.
\<close>

fun insort_by :: "('a \<Rightarrow> 'a \<Rightarrow> bool) \<Rightarrow> 'a \<Rightarrow> 'a list \<Rightarrow> 'a list" where
  "insort_by lt x [] = [x]"
| "insort_by lt x (y # ys) = (if lt y x then y # insort_by lt x ys else x # y # ys)"

fun sort_by :: "('a \<Rightarrow> 'a \<Rightarrow> bool) \<Rightarrow> 'a list \<Rightarrow> 'a list" where
  "sort_by lt [] = []"
| "sort_by lt (x # xs) = insort_by lt x (sort_by lt xs)"

definition sort_reverse :: "('a \<Rightarrow> 'a \<Rightarrow> bool) \<Rightarrow> 'a list \<Rightarrow> 'a list" where
  "sort_reverse lt xs = rev (sort_by lt (rev xs))"

section \<open>Data model\<close>

datatype error = MemosException | TypeError | ZeroDivisionError

datatype ResponseFormat = FULL | SUMMARY | MINIMAL | ID_ONLY

fun format_value :: "ResponseFormat \<Rightarrow> string" where
  "format_value FULL = ''full''"
| "format_value SUMMARY = ''summary''"
| "format_value MINIMAL = ''minimal''"
| "format_value ID_ONLY = ''id_only''"

record EnhancedMemosSearchParams =
  p_query :: string
  p_limit :: int
  p_offset :: int
  p_fields :: "string list"
  p_summary_only :: bool
  p_content_max_length :: int
  p_date_from :: "string option"
  p_date_to :: "string option"
  p_tags_filter :: "string list"
  p_response_format :: ResponseFormat
  p_group_by_tag :: bool

text \<open>
  \<^verbatim>\<open>__post_init__\<close> runs at the end of every construction of the dataclass; a
  constructed parameter value is \<open>post_init\<close> of the field values given.
\<close>

definition post_init :: "EnhancedMemosSearchParams \<Rightarrow> EnhancedMemosSearchParams" where
  "post_init self =
     (let self = (if p_limit self > 50 then self\<lparr>p_limit := 50\<rparr> else self);
          self = (if p_limit self < 1 then self\<lparr>p_limit := 1\<rparr> else self);
          self = (if p_offset self < 0 then self\<lparr>p_offset := 0\<rparr> else self);
          self = (if p_content_max_length self < 50
                  then self\<lparr>p_content_max_length := 50\<rparr> else self);
          self = (if p_content_max_length self > 2000
                  then self\<lparr>p_content_max_length := 2000\<rparr> else self)
      in self)"

text \<open>
  The values of a record's fields and of a formatted note: strings, lists of strings,
  numbers (Python's \<^verbatim>\<open>int\<close> and \<^verbatim>\<open>float\<close>, which compare with each other; floats are
  modelled by exact reals) and structured values that no search reads (\<open>JObj\<close>, as the
  store's \<^verbatim>\<open>nodes\<close>), which Python cannot order.
\<close>

datatype jval = JStr string | JStrs "string list" | JNum real | JObj nat

text \<open>
  A note record of the store is a dictionary. The keys the pipeline reads are typed as
  the store delivers them (\<open>None\<close>: the key is absent); every other key is in
  \<open>memo_other\<close>.
\<close>

record memo =
  memo_name :: "string option"
  memo_content :: "string option"
  memo_tags :: "string list option"
  memo_createTime :: "string option"
  memo_updateTime :: "string option"
  memo_snippet :: "string option"
  memo_other :: "(string \<times> jval) list"

text \<open>\<^verbatim>\<open>memo.get(key, "")\<close> and \<^verbatim>\<open>memo.get("tags", [])\<close>.\<close>

definition get_str :: "string option \<Rightarrow> string" where
  "get_str v = (case v of None \<Rightarrow> [] | Some s \<Rightarrow> s)"

definition get_list :: "string list option \<Rightarrow> string list" where
  "get_list v = (case v of None \<Rightarrow> [] | Some l \<Rightarrow> l)"

text \<open>\<^verbatim>\<open>memo[field]\<close> where \<^verbatim>\<open>field in memo\<close>, for any key.\<close>

definition memo_lookup :: "memo \<Rightarrow> string \<Rightarrow> jval option" where
  "memo_lookup m k =
     (if k = ''name'' then map_option JStr (memo_name m)
      else if k = ''content'' then map_option JStr (memo_content m)
      else if k = ''tags'' then map_option JStrs (memo_tags m)
      else if k = ''createTime'' then map_option JStr (memo_createTime m)
      else if k = ''updateTime'' then map_option JStr (memo_updateTime m)
      else if k = ''snippet'' then map_option JStr (memo_snippet m)
      else map_of (memo_other m) k)"

text \<open>
  A formatted note and the query metadata are dictionaries built by the pipeline: an
  association list in insertion order, \<open>AList.update\<close> for \<^verbatim>\<open>d[k] = v\<close>.
\<close>

type_synonym formatted = "(string \<times> jval) list"

record SearchResponse =
  r_memos :: "formatted list"
  r_total_count :: int
  r_has_more :: bool
  r_next_offset :: int
  r_query_metadata :: "(string \<times> jval) list"

text \<open>
  What the store's listing call gives: a transport failure, or a response with a status
  code and the \<^verbatim>\<open>memos\<close> of its body (the empty list when the key is missing).
\<close>

datatype fetch_result = RequestException | Response int "memo list"

section \<open>Match snippets\<close>

abbreviation NL :: char where
  "NL \<equiv> CHR 0x0A"

text \<open>
  The two word-boundary extensions of \<^verbatim>\<open>_extract_snippet_around_match\<close>. The start moves
  left while the character before it is alphanumeric, the end moves right while the
  character at it is; both are called with indices inside \<open>content\<close>.
\<close>

fun extend_start :: "string \<Rightarrow> nat \<Rightarrow> nat" where
  "extend_start content 0 = 0"
| "extend_start content (Suc n) =
     (if isalnum (content ! n) then extend_start content n else Suc n)"

function extend_end :: "string \<Rightarrow> nat \<Rightarrow> nat" where
  "extend_end content e =
     (if e < length content \<and> isalnum (content ! e) then extend_end content (Suc e) else e)"
  by pat_completeness auto
termination
  by (relation "measure (\<lambda>(content, e). length content - e)") auto

declare extend_end.simps [simp del]

text \<open>
  The body of the scanning loop for the match at \<open>pos\<close>: the window, its extension to
  word boundaries, the ellipses, and the emphasis by \<^verbatim>\<open>snippet.replace(m, "**m**")\<close>
  where \<open>m\<close> is \<^verbatim>\<open>content[pos:pos + len(query)]\<close>. The callers pass 50 for
  \<open>context_chars\<close>.
\<close>

definition highlight :: "string \<Rightarrow> string \<Rightarrow> string" where
  "highlight snippet matched = py_replace snippet matched (''**'' @ matched @ ''**'')"

definition snippet_at :: "string \<Rightarrow> string \<Rightarrow> nat \<Rightarrow> nat \<Rightarrow> string" where
  "snippet_at content query context_chars pos =
     (let snippet_start = pos - context_chars;
          snippet_end = min (length content) (pos + length query + context_chars);
          snippet_start = extend_start content snippet_start;
          snippet_end = extend_end content snippet_end;
          snippet = take (snippet_end - snippet_start) (drop snippet_start content);
          snippet = (if 0 < snippet_start then ''...'' @ snippet else snippet);
          snippet = (if snippet_end < length content then snippet @ ''...'' else snippet)
      in highlight snippet (take (length query) (drop pos content)))"

text \<open>
  The scanning loop \<^verbatim>\<open>while True\<close>, from the value \<open>start\<close> of its variable: it ends
  when \<^verbatim>\<open>find\<close> finds nothing, and resumes one character behind the start of a match.
\<close>

function snippets_from :: "string \<Rightarrow> string \<Rightarrow> nat \<Rightarrow> nat \<Rightarrow> string list" where
  "snippets_from content query context_chars start =
     (case py_find (py_lower content) (py_lower query) start of
        None \<Rightarrow> []
      | Some pos \<Rightarrow>
          snippet_at content query context_chars pos
            # snippets_from content query context_chars (Suc pos))"
  by pat_completeness auto
termination
proof (relation "measure (\<lambda>(content, query, context_chars, start). Suc (length content) - start)")
  show "wf (measure (\<lambda>(content, query, context_chars, start). Suc (length content) - start))"
    by simp
next
  fix content query :: string and context_chars start pos :: nat
  assume found: "py_find (py_lower content) (py_lower query) start = Some pos"
  have aux: "find_aux sub s i = Some p \<Longrightarrow> i \<le> p" for sub s i p
    by (induction s arbitrary: i) (auto split: if_splits dest: Suc_leD)
  from found have "start \<le> length content" and "start \<le> pos"
    by (auto simp: py_find_def py_lower_def split: if_splits dest: aux)
  then show "((content, query, context_chars, Suc pos), (content, query, context_chars, start))
      \<in> measure (\<lambda>(content, query, context_chars, start). Suc (length content) - start)"
    by simp
qed

declare snippets_from.simps [simp del]

definition extract_snippet_around_match :: "string \<Rightarrow> string \<Rightarrow> nat \<Rightarrow> string list" where
  "extract_snippet_around_match content query context_chars =
     (if query = [] \<or> content = [] then []
      else snippets_from content query context_chars 0)"

section \<open>Relevance score\<close>

text \<open>\<^verbatim>\<open>content.split('\n')[0] if content else ""\<close>.\<close>

definition first_line :: "string \<Rightarrow> string" where
  "first_line content =
     (if content \<noteq> [] then (case py_split NL content of [] \<Rightarrow> [] | l # ls \<Rightarrow> l) else [])"

text \<open>
  \<^verbatim>\<open>1.0 - (first_match / len(content)) if first_match != -1 else 0.0\<close>: the division
  raises for an empty \<open>content\<close>, when it is reached.
\<close>

definition position_score :: "nat option \<Rightarrow> string \<Rightarrow> error + real" where
  "position_score first_match content =
     (case first_match of
        None \<Rightarrow> Inr 0
      | Some i \<Rightarrow>
          if length content = 0 then Inl ZeroDivisionError
          else Inr (1 - real i / real (length content)))"

definition calculate_relevance_score ::
    "string \<Rightarrow> string \<Rightarrow> string list option \<Rightarrow> error + real" where
  "calculate_relevance_score content query tags =
     (if query = [] then Inr (1 / 2)
      else
        let query_lower = py_lower query;
            content_lower = py_lower content;
            match_count = py_count content_lower query_lower;
            title_bonus = (if py_in query_lower (py_lower (first_line content)) then 2 else 0);
            tag_bonus = (case tags of
                           None \<Rightarrow> 0
                         | Some ts \<Rightarrow>
                             if ts \<noteq> [] \<and> list_ex (\<lambda>tag. py_in query_lower (py_lower tag)) ts
                             then 1 else 0);
            first_match = py_find content_lower query_lower 0
        in case position_score first_match content of
             Inl e \<Rightarrow> Inl e
           | Inr ps \<Rightarrow> Inr (min 1 ((real match_count + title_bonus + tag_bonus + ps) / 10)))"

text \<open>
  The score is a Python \<^verbatim>\<open>float\<close>. The same function with its arithmetic as a
  parameter: \<open>f_nat\<close> is the conversion of an integer (and the literals \<^verbatim>\<open>0.0\<close>,
  \<^verbatim>\<open>1.0\<close>, \<^verbatim>\<open>2.0\<close>, \<^verbatim>\<open>10.0\<close>), \<open>f_half\<close> the literal \<^verbatim>\<open>0.5\<close>, \<open>f_int_div\<close> the
  division of two integers, \<open>py_min A a b\<close> Python's \<^verbatim>\<open>min(a, b)\<close>. The sum is added
  from left to right, as Python does. With the exact arithmetic of the reals it is
  \<open>calculate_relevance_score\<close> (shown below); with double-precision arithmetic it is
  the value the code returns.
\<close>

record 'f float_ops =
  f_nat :: "nat \<Rightarrow> 'f"
  f_half :: 'f
  f_add :: "'f \<Rightarrow> 'f \<Rightarrow> 'f"
  f_sub :: "'f \<Rightarrow> 'f \<Rightarrow> 'f"
  f_div :: "'f \<Rightarrow> 'f \<Rightarrow> 'f"
  f_int_div :: "nat \<Rightarrow> nat \<Rightarrow> 'f"
  f_less :: "'f \<Rightarrow> 'f \<Rightarrow> bool"

definition exact_ops :: "real float_ops" where
  "exact_ops =
     \<lparr>f_nat = real, f_half = 1 / 2, f_add = (+), f_sub = (-), f_div = (/),
      f_int_div = (\<lambda>a b. real a / real b), f_less = (<)\<rparr>"

definition py_min :: "'f float_ops \<Rightarrow> 'f \<Rightarrow> 'f \<Rightarrow> 'f" where
  "py_min A a b = (if f_less A b a then b else a)"

definition position_score_with :: "'f float_ops \<Rightarrow> nat option \<Rightarrow> string \<Rightarrow> error + 'f" where
  "position_score_with A first_match content =
     (case first_match of
        None \<Rightarrow> Inr (f_nat A 0)
      | Some i \<Rightarrow>
          if length content = 0 then Inl ZeroDivisionError
          else Inr (f_sub A (f_nat A 1) (f_int_div A i (length content))))"

definition calculate_relevance_score_with ::
    "'f float_ops \<Rightarrow> string \<Rightarrow> string \<Rightarrow> string list option \<Rightarrow> error + 'f" where
  "calculate_relevance_score_with A content query tags =
     (if query = [] then Inr (f_half A)
      else
        let query_lower = py_lower query;
            content_lower = py_lower content;
            match_count = py_count content_lower query_lower;
            title_bonus = (if py_in query_lower (py_lower (first_line content))
                           then f_nat A 2 else f_nat A 0);
            tag_bonus = (case tags of
                           None \<Rightarrow> f_nat A 0
                         | Some ts \<Rightarrow>
                             if ts \<noteq> [] \<and> list_ex (\<lambda>tag. py_in query_lower (py_lower tag)) ts
                             then f_nat A 1 else f_nat A 0);
            first_match = py_find content_lower query_lower 0
        in case position_score_with A first_match content of
             Inl e \<Rightarrow> Inl e
           | Inr ps \<Rightarrow>
               Inr (py_min A (f_nat A 1)
                     (f_div A
                        (f_add A (f_add A (f_add A (f_nat A match_count) title_bonus) tag_bonus)
                           ps)
                        (f_nat A 10))))"

section \<open>Smart summary\<close>

text \<open>
  The first loop over \<^verbatim>\<open>lines[1:]\<close>: headers and list items, while the joined parts and
  the line stay under \<open>remaining_length\<close>.
\<close>

fun header_list_pass :: "string list \<Rightarrow> int \<Rightarrow> string list \<Rightarrow> string list" where
  "header_list_pass [] remaining_length summary_parts = summary_parts"
| "header_list_pass (l # ls) remaining_length summary_parts =
     (if py_strip l = [] then header_list_pass ls remaining_length summary_parts
      else if (prefix ''#'' (py_strip l) \<or> prefix ''-'' (py_strip l)
               \<or> prefix ''*'' (py_strip l) \<or> prefix ''1.'' (py_strip l))
              \<and> int (length (py_join '' '' summary_parts)) + int (length (py_strip l))
                  < remaining_length
      then header_list_pass ls remaining_length (summary_parts @ [py_strip l])
      else header_list_pass ls remaining_length summary_parts)"

text \<open>The second loop over \<^verbatim>\<open>lines[1:]\<close>, under the same budget.\<close>

fun regular_pass :: "string list \<Rightarrow> int \<Rightarrow> string list \<Rightarrow> string list" where
  "regular_pass [] remaining_length summary_parts = summary_parts"
| "regular_pass (l # ls) remaining_length summary_parts =
     (if py_strip l \<noteq> [] \<and> \<not> prefix ''#'' (py_strip l) \<and> \<not> prefix ''-'' (py_strip l)
         \<and> int (length (py_join '' '' summary_parts)) + int (length (py_strip l))
             < remaining_length
      then regular_pass ls remaining_length (summary_parts @ [py_strip l])
      else regular_pass ls remaining_length summary_parts)"

text \<open>
  The test \<^verbatim>\<open>len(' '.join(summary_parts)) < max_length * 0.7\<close> compares an integer with
  seven tenths of an integer; it is written without the division.
\<close>

definition under_70_percent :: "string list \<Rightarrow> int \<Rightarrow> bool" where
  "under_70_percent summary_parts max_length =
     (10 * int (length (py_join '' '' summary_parts)) < 7 * max_length)"

text \<open>The general summary, from \<^verbatim>\<open>lines = content.split('\n')\<close> on.\<close>

definition general_summary :: "string \<Rightarrow> int \<Rightarrow> string" where
  "general_summary content max_length =
     (let lines = py_split NL content;
          summary_parts = (case lines of [] \<Rightarrow> [] | l # ls \<Rightarrow> [l]);
          remaining_length = (case summary_parts of
                                [] \<Rightarrow> max_length
                              | t # ts \<Rightarrow> max_length - int (length t));
          summary_parts = header_list_pass (drop 1 lines) remaining_length summary_parts;
          summary_parts = (if under_70_percent summary_parts max_length
                           then regular_pass (drop 1 lines) remaining_length summary_parts
                           else summary_parts);
          summary = py_join [NL] summary_parts
      in if int (length summary) > max_length
         then rsplit1_head CHR '' '' (py_slice summary 0 max_length) @ ''...''
         else summary)"

definition generate_smart_summary :: "memo \<Rightarrow> string \<Rightarrow> int \<Rightarrow> string" where
  "generate_smart_summary memo query max_length =
     (let content = get_str (memo_content memo) in
      if content = [] then []
      else
        let snippets = (if query \<noteq> [] then extract_snippet_around_match content query 50
                        else [])
        in if query \<noteq> [] \<and> snippets \<noteq> []
           then (let summary = py_join '' [...] '' (take 3 snippets)
                 in if int (length summary) > max_length
                    then py_slice summary 0 max_length @ ''...''
                    else summary)
           else general_summary content max_length)"

section \<open>Response formats\<close>

text \<open>The list comprehension over a function that may raise: the first error ends it.\<close>

fun map_result :: "('a \<Rightarrow> error + 'b) \<Rightarrow> 'a list \<Rightarrow> error + 'b list" where
  "map_result f [] = Inr []"
| "map_result f (x # xs) =
     (case f x of
        Inl e \<Rightarrow> Inl e
      | Inr y \<Rightarrow> (case map_result f xs of Inl e \<Rightarrow> Inl e | Inr ys \<Rightarrow> Inr (y # ys)))"

text \<open>The \<^verbatim>\<open>MINIMAL\<close> branch of \<^verbatim>\<open>_apply_response_format\<close>.\<close>

definition format_minimal :: "memo \<Rightarrow> formatted \<Rightarrow> formatted" where
  "format_minimal memo formatted =
     (let content = get_str (memo_content memo);
          formatted = AList.update ''snippet'' (JStr (py_slice (first_line content) 0 100))
                        formatted
      in AList.update ''tags'' (JStrs (get_list (memo_tags memo))) formatted)"

text \<open>The \<^verbatim>\<open>SUMMARY\<close> branch.\<close>

definition format_summary ::
    "memo \<Rightarrow> EnhancedMemosSearchParams \<Rightarrow> string \<Rightarrow> formatted \<Rightarrow> error + formatted" where
  "format_summary memo params query formatted =
     (let content = get_str (memo_content memo);
          with_content =
            (if p_summary_only params \<or> query \<noteq> [] then
               (let formatted = AList.update ''content''
                      (JStr (generate_smart_summary memo query (p_content_max_length params)))
                      formatted
                in if query \<noteq> [] then
                     (let snippets = extract_snippet_around_match content query 50;
                          formatted = (if snippets \<noteq> []
                                       then AList.update ''match_snippets''
                                              (JStrs (take 3 snippets)) formatted
                                       else formatted)
                      in case calculate_relevance_score content query
                                (Some (get_list (memo_tags memo))) of
                           Inl e \<Rightarrow> Inl e
                         | Inr score \<Rightarrow>
                             Inr (AList.update ''relevance_score'' (JNum score) formatted))
                   else Inr formatted)
             else
               (let truncated_content = py_slice content 0 (p_content_max_length params);
                    truncated_content =
                      (if int (length content) > p_content_max_length params
                       then truncated_content @ ''...'' else truncated_content)
                in Inr (AList.update ''content'' (JStr truncated_content) formatted)))
      in case with_content of
           Inl e \<Rightarrow> Inl e
         | Inr formatted \<Rightarrow>
             Inr (AList.update ''snippet'' (JStr (get_str (memo_snippet memo)))
                   (AList.update ''tags'' (JStrs (get_list (memo_tags memo))) formatted)))"

text \<open>The \<^verbatim>\<open>FULL\<close> branch: every requested field that the record has.\<close>

definition format_full :: "memo \<Rightarrow> string list \<Rightarrow> formatted \<Rightarrow> formatted" where
  "format_full memo field_names formatted =
     foldl (\<lambda>formatted field.
              case memo_lookup memo field of
                None \<Rightarrow> formatted
              | Some v \<Rightarrow> AList.update field v formatted)
       formatted field_names"

definition apply_response_format ::
    "memo \<Rightarrow> EnhancedMemosSearchParams \<Rightarrow> string \<Rightarrow> error + formatted" where
  "apply_response_format memo params query =
     (let memo_id = get_str (memo_name memo) in
      if p_response_format params = ID_ONLY then Inr [(''id'', JStr memo_id)]
      else
        let formatted = [(''id'', JStr memo_id),
                         (''createTime'', JStr (get_str (memo_createTime memo))),
                         (''updateTime'', JStr (get_str (memo_updateTime memo)))]
        in case (if p_response_format params = MINIMAL then Inr (format_minimal memo formatted)
                 else if p_response_format params = SUMMARY
                 then format_summary memo params query formatted
                 else Inr (format_full memo (p_fields params) formatted)) of
             Inl e \<Rightarrow> Inl e
           | Inr formatted \<Rightarrow>
               Inr (if map_of formatted ''nodes'' \<noteq> None \<and> p_response_format params \<noteq> FULL
                    then AList.delete ''nodes'' formatted else formatted))"

section \<open>Filter, sort, paginate\<close>

definition apply_date_filter ::
    "memo list \<Rightarrow> string option \<Rightarrow> string option \<Rightarrow> memo list" where
  "apply_date_filter memo_list date_from date_to =
     (let filtered = memo_list;
          filtered = (case date_from of
                        None \<Rightarrow> filtered
                      | Some d \<Rightarrow>
                          if d \<noteq> []
                          then filter (\<lambda>memo. get_str (memo_createTime memo) \<ge> d) filtered
                          else filtered);
          filtered = (case date_to of
                        None \<Rightarrow> filtered
                      | Some d \<Rightarrow>
                          if d \<noteq> []
                          then filter (\<lambda>memo. get_str (memo_createTime memo) \<le> d) filtered
                          else filtered)
      in filtered)"

text \<open>\<^verbatim>\<open>params.date_from or params.date_to\<close>: neither \<^verbatim>\<open>None\<close> nor empty.\<close>

definition truthy :: "string option \<Rightarrow> bool" where
  "truthy v = (case v of None \<Rightarrow> False | Some d \<Rightarrow> d \<noteq> [])"

text \<open>The three filters of \<^verbatim>\<open>search_memos_enhanced\<close>, in its order.\<close>

definition filter_stage :: "memo list \<Rightarrow> EnhancedMemosSearchParams \<Rightarrow> memo list" where
  "filter_stage all_memos params =
     (let filtered_memos =
            (if p_query params \<noteq> []
             then filter (\<lambda>memo. py_in (py_lower (p_query params))
                                     (py_lower (get_str (memo_content memo)))) all_memos
             else all_memos);
          filtered_memos =
            (if p_tags_filter params \<noteq> []
             then filter (\<lambda>memo. list_ex (\<lambda>tag. tag \<in> set (get_list (memo_tags memo)))
                                     (p_tags_filter params)) filtered_memos
             else filtered_memos);
          filtered_memos =
            (if truthy (p_date_from params) \<or> truthy (p_date_to params)
             then apply_date_filter filtered_memos (p_date_from params) (p_date_to params)
             else filtered_memos)
      in filtered_memos)"

text \<open>\<^verbatim>\<open>filtered_memos.sort(key=lambda x: x.get("createTime", ""), reverse=True)\<close>.\<close>

definition sort_by_create_time :: "memo list \<Rightarrow> memo list" where
  "sort_by_create_time filtered_memos =
     sort_reverse (\<lambda>a b. get_str (memo_createTime a) < get_str (memo_createTime b))
       filtered_memos"

definition paginate_results ::
    "'a list \<Rightarrow> EnhancedMemosSearchParams \<Rightarrow> 'a list \<times> bool \<times> int" where
  "paginate_results all_items params =
     (let total_count = int (length all_items);
          start_idx = p_offset params;
          end_idx = start_idx + p_limit params;
          paginated_items = py_slice all_items start_idx end_idx;
          has_more = (end_idx < total_count)
      in (paginated_items, has_more, total_count))"

section \<open>Relevance re-sort and the search operation\<close>

text \<open>
  The key \<^verbatim>\<open>x.get('relevance_score', 0)\<close> and Python's order on such keys: numbers
  with numbers, strings with strings, lists of strings with lists of strings. A sort of
  two or more elements compares keys, and raises \<^verbatim>\<open>TypeError\<close> unless they are all of
  one kind that has an order.
\<close>

definition relevance_key :: "formatted \<Rightarrow> jval" where
  "relevance_key x = (case map_of x ''relevance_score'' of None \<Rightarrow> JNum 0 | Some v \<Rightarrow> v)"

fun jval_less :: "jval \<Rightarrow> jval \<Rightarrow> bool" where
  "jval_less (JNum a) (JNum b) = (a < b)"
| "jval_less (JStr a) (JStr b) = (a < b)"
| "jval_less (JStrs a) (JStrs b) = (a < b)"
| "jval_less a b = False"

fun is_num :: "jval \<Rightarrow> bool" where
  "is_num (JNum a) = True"
| "is_num v = False"

fun is_str :: "jval \<Rightarrow> bool" where
  "is_str (JStr a) = True"
| "is_str v = False"

fun is_strs :: "jval \<Rightarrow> bool" where
  "is_strs (JStrs a) = True"
| "is_strs v = False"

definition keys_comparable :: "jval list \<Rightarrow> bool" where
  "keys_comparable ks =
     (length ks \<le> 1 \<or> list_all is_num ks \<or> list_all is_str ks \<or> list_all is_strs ks)"

definition sort_by_key_reverse :: "('a \<Rightarrow> jval) \<Rightarrow> 'a list \<Rightarrow> error + 'a list" where
  "sort_by_key_reverse key xs =
     (if keys_comparable (map key xs)
      then Inr (sort_reverse (\<lambda>a b. jval_less (key a) (key b)) xs)
      else Inl TypeError)"

text \<open>The condition of the re-sort, and the re-sort.\<close>

definition resort_condition :: "EnhancedMemosSearchParams \<Rightarrow> formatted list \<Rightarrow> bool" where
  "resort_condition params formatted_memos =
     (p_query params \<noteq> []
      \<and> list_ex (\<lambda>memo. map_of memo ''relevance_score'' \<noteq> None) formatted_memos)"

definition relevance_resort ::
    "EnhancedMemosSearchParams \<Rightarrow> formatted list \<Rightarrow> error + formatted list" where
  "relevance_resort params formatted_memos =
     (if resort_condition params formatted_memos
      then sort_by_key_reverse relevance_key formatted_memos
      else Inr formatted_memos)"

text \<open>
  The page before the re-sort: filter, sort by creation time, paginate, format. It is
  the value of \<^verbatim>\<open>formatted_memos\<close> after the list comprehension.
\<close>

definition formatted_page ::
    "memo list \<Rightarrow> EnhancedMemosSearchParams \<Rightarrow> error + formatted list" where
  "formatted_page all_memos params =
     (let filtered_memos = sort_by_create_time (filter_stage all_memos params);
          (paginated_memos, has_more, total_count) = paginate_results filtered_memos params
      in map_result (\<lambda>memo. apply_response_format memo params (p_query params))
           paginated_memos)"

text \<open>
  \<^verbatim>\<open>search_memos_enhanced\<close> on what the listing call gave. \<^verbatim>\<open>raise_for_status\<close> raises
  for the codes 400 to 599, which the method turns into a \<^verbatim>\<open>MemosException\<close>, as it does
  for every code but 200; an error of the pipeline itself is not caught.
\<close>

definition search_memos_enhanced ::
    "fetch_result \<Rightarrow> EnhancedMemosSearchParams \<Rightarrow> error + SearchResponse" where
  "search_memos_enhanced response params =
     (case response of
        RequestException \<Rightarrow> Inl MemosException
      | Response status_code all_memos \<Rightarrow>
          if 400 \<le> status_code \<and> status_code < 600 then Inl MemosException
          else if status_code = 200 then
            (let filtered_memos = sort_by_create_time (filter_stage all_memos params);
                 (paginated_memos, has_more, total_count) =
                    paginate_results filtered_memos params
             in case map_result (\<lambda>memo. apply_response_format memo params (p_query params))
                       paginated_memos of
                  Inl e \<Rightarrow> Inl e
                | Inr formatted_memos \<Rightarrow>
                    (case relevance_resort params formatted_memos of
                       Inl e \<Rightarrow> Inl e
                     | Inr formatted_memos \<Rightarrow>
                         let next_offset =
                               (if has_more then p_offset params + p_limit params else - 1)
                         in Inr \<lparr>r_memos = formatted_memos,
                                 r_total_count = total_count,
                                 r_has_more = has_more,
                                 r_next_offset = next_offset,
                                 r_query_metadata =
                                   [(''query'', JStr (p_query params)),
                                    (''limit'', JNum (real_of_int (p_limit params))),
                                    (''offset'', JNum (real_of_int (p_offset params))),
                                    (''format'', JStr (format_value (p_response_format params))),
                                    (''filtered_count'', JNum (real_of_int total_count)),
                                    (''returned_count'',
                                       JNum (real (length formatted_memos)))]\<rparr>))
          else Inl MemosException)"

section \<open>Auxiliary notions for the statements\<close>

text \<open>The defaults of the dataclass \<^verbatim>\<open>EnhancedMemosSearchParams\<close>.\<close>

definition default_params :: EnhancedMemosSearchParams where
  "default_params =
     \<lparr>p_query = [], p_limit = 10, p_offset = 0,
      p_fields = [''id'', ''content'', ''tags'', ''createTime''],
      p_summary_only = False, p_content_max_length = 500,
      p_date_from = None, p_date_to = None, p_tags_filter = [],
      p_response_format = SUMMARY, p_group_by_tag = False\<rparr>"

text \<open>A record with the given name, content, tags and creation time, and no other key.\<close>

definition mk_memo :: "string \<Rightarrow> string \<Rightarrow> string list \<Rightarrow> string \<Rightarrow> memo" where
  "mk_memo n c ts t =
     \<lparr>memo_name = Some n, memo_content = Some c, memo_tags = Some ts,
      memo_createTime = Some t, memo_updateTime = None, memo_snippet = None,
      memo_other = []\<rparr>"

text \<open>The note that \<open>apply_response_format\<close> returns (it never raises, see below).\<close>

definition format_note :: "memo \<Rightarrow> EnhancedMemosSearchParams \<Rightarrow> string \<Rightarrow> formatted" where
  "format_note memo params query =
     (case apply_response_format memo params query of Inr f \<Rightarrow> f | Inl e \<Rightarrow> [])"

text \<open>The records of the paginated window: \<^verbatim>\<open>paginated_memos\<close> of the search.\<close>

definition page_records :: "memo list \<Rightarrow> EnhancedMemosSearchParams \<Rightarrow> memo list" where
  "page_records all_memos params =
     fst (paginate_results (sort_by_create_time (filter_stage all_memos params)) params)"

definition note_id :: "formatted \<Rightarrow> jval option" where
  "note_id x = map_of x ''id''"

definition score_of :: "formatted \<Rightarrow> real" where
  "score_of x = (case relevance_key x of JNum s \<Rightarrow> s | _ \<Rightarrow> 0)"

text \<open>
  The filter contract in the words of the specification: a record is kept when it
  satisfies every active predicate. \<open>sublist\<close> is the contiguous-substring relation,
  the tags are compared by equality, the dates by the lexicographic order on strings; a
  bound that is \<^verbatim>\<open>None\<close> or empty is not set.
\<close>

definition spec_keeps :: "EnhancedMemosSearchParams \<Rightarrow> memo \<Rightarrow> bool" where
  "spec_keeps params memo =
     ((p_query params = []
         \<or> sublist (py_lower (p_query params)) (py_lower (get_str (memo_content memo))))
      \<and> (p_tags_filter params = []
         \<or> (\<exists>tag \<in> set (get_list (memo_tags memo)). tag \<in> set (p_tags_filter params)))
      \<and> (case p_date_from params of
            None \<Rightarrow> True
          | Some d \<Rightarrow> d = [] \<or> d \<le> get_str (memo_createTime memo))
      \<and> (case p_date_to params of
            None \<Rightarrow> True
          | Some d \<Rightarrow> d = [] \<or> get_str (memo_createTime memo) \<le> d))"

text \<open>
  The occurrence count, stated without the scan: \<open>ps\<close> is a list of pairwise
  non-overlapping occurrences of \<open>sub\<close> in \<open>s\<close> when \<open>sub\<close> begins at each of
  its positions and each position is at least the length of \<open>sub\<close> behind the one
  before; the count is the greatest length of such a list.
\<close>

definition nonoverlapping :: "string \<Rightarrow> string \<Rightarrow> nat list \<Rightarrow> bool" where
  "nonoverlapping sub s ps =
     ((\<forall>p \<in> set ps. prefix sub (drop p s)) \<and> sorted_wrt (\<lambda>a b. a + length sub \<le> b) ps)"

definition occurrence_count :: "string \<Rightarrow> string \<Rightarrow> nat" where
  "occurrence_count sub s = (GREATEST k. \<exists>ps. nonoverlapping sub s ps \<and> length ps = k)"

text \<open>
  The score in the words of the specification, in the arithmetic \<open>A\<close>: the first line
  is the part before the first newline, a match is a contiguous substring of the
  lowered string, and the first match index is the least index at which the lowered
  query begins in the lowered content.
\<close>

definition spec_score_with :: "'f float_ops \<Rightarrow> string \<Rightarrow> string \<Rightarrow> string list \<Rightarrow> 'f" where
  "spec_score_with A content query tags =
     (if query = [] then f_half A
      else
        let q = py_lower query;
            c = py_lower content;
            count = f_nat A (occurrence_count q c);
            title_bonus = (if sublist q (py_lower (takeWhile (\<lambda>ch. ch \<noteq> NL) content))
                           then f_nat A 2 else f_nat A 0);
            tag_bonus = (if \<exists>tag \<in> set tags. sublist q (py_lower tag)
                         then f_nat A 1 else f_nat A 0);
            position = (if sublist q c
                        then f_sub A (f_nat A 1)
                               (f_int_div A (LEAST i. prefix q (drop i c)) (length content))
                        else f_nat A 0);
            raw = f_add A (f_add A (f_add A count title_bonus) tag_bonus) position;
            scaled = f_div A raw (f_nat A 10)
        in if f_less A scaled (f_nat A 1) then scaled else f_nat A 1)"

text \<open>
  Every index of \<open>content\<close> at which the query occurs, case-insensitively, in ascending
  order; occurrences that overlap are all in it.
\<close>

definition match_positions :: "string \<Rightarrow> string \<Rightarrow> nat list" where
  "match_positions content query =
     filter (\<lambda>i. prefix (py_lower query) (drop i (py_lower content))) [0 ..< length content]"

section \<open>Properties of the string and list primitives\<close>

lemma py_slice_nonneg:
  assumes "0 \<le> a" and "0 \<le> b"
  shows "py_slice xs a b = take (nat b - nat a) (drop (nat a) xs)"
  using assms by (auto simp: py_slice_def Let_def min_def nat_diff_distrib')

lemma take_drop_nth_range:
  "take k (drop a xs) = map ((!) xs) [a ..< min (a + k) (length xs)]"
  by (auto simp: list_eq_iff_nth_eq min_def)

lemma post_init_limit: "1 \<le> p_limit (post_init p) \<and> p_limit (post_init p) \<le> 50"
  by (simp add: post_init_def Let_def)

lemma post_init_offset: "0 \<le> p_offset (post_init p)"
  by (simp add: post_init_def Let_def)

lemma post_init_fields:
  "p_query (post_init p) = p_query p"
  "p_response_format (post_init p) = p_response_format p"
  by (simp_all add: post_init_def Let_def)

lemma paginate_constructed:
  "paginate_results all_items (post_init p) =
     (map ((!) all_items)
        [nat (p_offset (post_init p)) ..<
           min (nat (p_offset (post_init p) + p_limit (post_init p))) (length all_items)],
      p_offset (post_init p) + p_limit (post_init p) < int (length all_items),
      int (length all_items))"
proof -
  have o: "0 \<le> p_offset (post_init p)" by (rule post_init_offset)
  have l: "1 \<le> p_limit (post_init p)" using post_init_limit by blast
  have "nat (p_offset (post_init p) + p_limit (post_init p)) - nat (p_offset (post_init p)) = nat (p_limit (post_init p))"
    using o l by linarith
  moreover have "nat (p_offset (post_init p)) + nat (p_limit (post_init p)) = nat (p_offset (post_init p) + p_limit (post_init p))"
    using o l by linarith
  ultimately show ?thesis
    using o l by (simp add: paginate_results_def Let_def py_slice_nonneg take_drop_nth_range)
qed

lemma find_aux_sublist: "(find_aux sub s i \<noteq> None) = sublist sub s"
proof (induction s arbitrary: i)
  case Nil
  then show ?case by (cases sub) auto
next
  case (Cons c cs)
  then show ?case by (cases sub) (auto simp: sublist_Cons_right)
qed

lemma py_in_sublist: "py_in sub s = sublist sub s"
  using find_aux_sublist [of sub s 0] by (simp add: py_in_def py_find_def)

lemma find_aux_Some:
  "find_aux sub s i = Some p \<Longrightarrow>
     i \<le> p \<and> p \<le> i + length s \<and> prefix sub (drop (p - i) s)
     \<and> (\<forall>j<p - i. \<not> prefix sub (drop j s))"
proof (induction s arbitrary: i)
  case Nil
  then show ?case by (auto split: if_splits)
next
  case (Cons c cs)
  show ?case
  proof (cases "prefix sub (c # cs)")
    case True
    with Cons.prems show ?thesis by simp
  next
    case False
    with Cons.prems have rec: "find_aux sub cs (Suc i) = Some p" by simp
    from Cons.IH [OF rec] have ih: "Suc i \<le> p" "p \<le> Suc i + length cs"
      "prefix sub (drop (p - Suc i) cs)" "\<forall>j<p - Suc i. \<not> prefix sub (drop j cs)"
      by auto
    have eq: "p - i = Suc (p - Suc i)" using ih(1) by simp
    have "\<not> prefix sub (drop j (c # cs))" if "j < p - i" for j
    proof (cases j)
      case 0
      with False show ?thesis by simp
    next
      case (Suc j')
      with that eq have "j' < p - Suc i" by simp
      with ih(4) Suc show ?thesis by simp
    qed
    with ih eq show ?thesis by simp
  qed
qed

lemma find_aux_None:
  "find_aux sub s i = None \<Longrightarrow> \<not> prefix sub (drop j s)"
proof (induction s arbitrary: i j)
  case Nil
  then show ?case by (auto split: if_splits)
next
  case (Cons c cs)
  then show ?case by (cases j) (auto split: if_splits)
qed

lemma py_find_0_Some:
  assumes "py_find s sub 0 = Some p" and "sub \<noteq> []"
  shows "p < length s \<and> prefix sub (drop p s) \<and> (\<forall>j<p. \<not> prefix sub (drop j s))"
proof -
  from assms(1) have f: "find_aux sub s 0 = Some p" by (simp add: py_find_def)
  from find_aux_Some [OF f] have a: "p \<le> length s" "prefix sub (drop p s)"
    "\<forall>j<p. \<not> prefix sub (drop j s)" by auto
  have "p \<noteq> length s" using a(2) assms(2) by auto
  with a show ?thesis by simp
qed

lemma py_lower_Nil_iff: "(py_lower s = []) = (s = [])"
  by (simp add: py_lower_def)

lemma length_py_lower: "length (py_lower s) = length s"
  by (simp add: py_lower_def)

lemma position_score_total:
  assumes "query \<noteq> []"
  shows "\<exists>ps. position_score (py_find (py_lower content) (py_lower query) 0) content = Inr ps
        \<and> 0 \<le> ps \<and> ps \<le> 1"
proof (cases "py_find (py_lower content) (py_lower query) 0")
  case None
  then show ?thesis by (simp add: position_score_def)
next
  case (Some i)
  from assms have "py_lower query \<noteq> []" by (simp add: py_lower_Nil_iff)
  from py_find_0_Some [OF Some this] have "i < length content"
    by (simp add: length_py_lower)
  then have "content \<noteq> []" by auto
  with Some \<open>i < length content\<close> show ?thesis
    by (simp add: position_score_def)
qed

lemma calculate_relevance_score_total:
  "\<exists>s. calculate_relevance_score content query tags = Inr s \<and> 0 \<le> s \<and> s \<le> 1"
proof (cases "query = []")
  case True
  then have "calculate_relevance_score content query tags = Inr (1 / 2)"
    by (simp add: calculate_relevance_score_def)
  then show ?thesis by (intro exI [of _ "1 / 2"]) simp
next
  case False
  from position_score_total [OF False] obtain ps where
    ps: "position_score (py_find (py_lower content) (py_lower query) 0) content = Inr ps"
      "0 \<le> ps" "ps \<le> 1" by blast
  with False show ?thesis
    by (auto simp: calculate_relevance_score_def Let_def split: option.splits)
qed

lemma mset_insort_by: "mset (insort_by lt x xs) = add_mset x (mset xs)"
  by (induction xs) simp_all

lemma mset_sort_by: "mset (sort_by lt xs) = mset xs"
  by (induction xs) (simp_all add: mset_insort_by)

lemma mset_sort_reverse: "mset (sort_reverse lt xs) = mset xs"
  by (simp add: sort_reverse_def mset_sort_by)

lemma set_insort_by: "set (insort_by lt x xs) = insert x (set xs)"
  by (induction xs) auto

lemma set_sort_by: "set (sort_by lt xs) = set xs"
  by (induction xs) (simp_all add: set_insort_by)

lemma sorted_insort_by:
  fixes k :: "'a \<Rightarrow> 'b::linorder"
  shows "sorted_wrt (\<lambda>a b. k a \<le> k b) xs \<Longrightarrow>
         sorted_wrt (\<lambda>a b. k a \<le> k b) (insort_by (\<lambda>a b. k a < k b) x xs)"
  by (induction xs) (auto simp: set_insort_by)

lemma sorted_sort_by:
  fixes k :: "'a \<Rightarrow> 'b::linorder"
  shows "sorted_wrt (\<lambda>a b. k a \<le> k b) (sort_by (\<lambda>a b. k a < k b) xs)"
  by (induction xs) (simp_all add: sorted_insort_by)

lemma sorted_sort_reverse:
  fixes k :: "'a \<Rightarrow> 'b::linorder"
  shows "sorted_wrt (\<lambda>a b. k b \<le> k a) (sort_reverse (\<lambda>a b. k a < k b) xs)"
  using sorted_sort_by [of k "rev xs"] by (simp add: sort_reverse_def sorted_wrt_rev)

lemma insort_by_cong:
  "(\<And>b. b \<in> set xs \<Longrightarrow> lt b x = lt' b x) \<Longrightarrow> insort_by lt x xs = insort_by lt' x xs"
  by (induction xs) simp_all

lemma sort_by_cong:
  "(\<And>a b. a \<in> set xs \<Longrightarrow> b \<in> set xs \<Longrightarrow> lt a b = lt' a b) \<Longrightarrow>
   sort_by lt xs = sort_by lt' xs"
proof (induction xs)
  case Nil
  then show ?case by simp
next
  case (Cons x xs)
  have "sort_by lt xs = sort_by lt' xs"
    by (rule Cons.IH) (simp_all add: Cons.prems)
  moreover have "insort_by lt x (sort_by lt' xs) = insort_by lt' x (sort_by lt' xs)"
    by (rule insort_by_cong) (simp add: set_sort_by Cons.prems)
  ultimately show ?case by simp
qed

lemma sort_reverse_cong:
  "(\<And>a b. a \<in> set xs \<Longrightarrow> b \<in> set xs \<Longrightarrow> lt a b = lt' a b) \<Longrightarrow>
   sort_reverse lt xs = sort_reverse lt' xs"
proof -
  assume "\<And>a b. a \<in> set xs \<Longrightarrow> b \<in> set xs \<Longrightarrow> lt a b = lt' a b"
  then have "sort_by lt (rev xs) = sort_by lt' (rev xs)"
    by (intro sort_by_cong) simp_all
  then show ?thesis by (simp add: sort_reverse_def)
qed

section \<open>Properties of the pipeline stages\<close>

lemma map_result_map:
  "(\<And>x. x \<in> set xs \<Longrightarrow> f x = Inr (g x)) \<Longrightarrow> map_result f xs = Inr (map g xs)"
  by (induction xs) simp_all

lemma map_of_format_full:
  "map_of (format_full memo field_names formatted) k =
     (if k \<in> set field_names \<and> memo_lookup memo k \<noteq> None
      then memo_lookup memo k else map_of formatted k)"
  unfolding format_full_def
  by (induction field_names arbitrary: formatted)
     (auto simp: update_conv' split: option.splits)

lemma format_summary_total:
  "\<exists>f. format_summary memo params query formatted = Inr f"
proof -
  obtain s where "calculate_relevance_score (get_str (memo_content memo)) query
      (Some (get_list (memo_tags memo))) = Inr s"
    using calculate_relevance_score_total by blast
  then show ?thesis by (simp add: format_summary_def Let_def)
qed

lemma apply_response_format_total:
  "\<exists>f. apply_response_format memo params query = Inr f"
proof -
  obtain f where "format_summary memo params query
     [(''id'', JStr (get_str (memo_name memo))),
      (''createTime'', JStr (get_str (memo_createTime memo))),
      (''updateTime'', JStr (get_str (memo_updateTime memo)))] = Inr f"
    using format_summary_total by blast
  then show ?thesis by (simp add: apply_response_format_def Let_def)
qed

lemma format_summary_relevance:
  assumes "format_summary memo params query formatted = Inr f"
    and "map_of formatted ''relevance_score'' = None"
  shows "if query = [] then map_of f ''relevance_score'' = None
         else \<exists>s. map_of f ''relevance_score'' = Some (JNum s)"
  using assms
  by (auto simp: format_summary_def Let_def update_conv' split: sum.splits if_splits)

lemma apply_response_format_relevance:
  assumes "apply_response_format memo params query = Inr f"
  shows "map_of f ''relevance_score'' =
     (case p_response_format params of
        ID_ONLY \<Rightarrow> None
      | MINIMAL \<Rightarrow> None
      | SUMMARY \<Rightarrow> (if query = [] then None
                    else (case calculate_relevance_score (get_str (memo_content memo)) query
                                 (Some (get_list (memo_tags memo))) of
                            Inr s \<Rightarrow> Some (JNum s) | Inl e \<Rightarrow> None))
      | FULL \<Rightarrow> (if ''relevance_score'' \<in> set (p_fields params)
                 then memo_lookup memo ''relevance_score'' else None))"
proof (cases "p_response_format params")
  case FULL
  with assms show ?thesis
    by (auto simp: apply_response_format_def Let_def map_of_format_full split: if_splits)
next
  case SUMMARY
  with assms show ?thesis
    by (auto simp: apply_response_format_def format_summary_def Let_def update_conv' delete_conv'
        split: sum.splits if_splits)
next
  case MINIMAL
  with assms show ?thesis
    by (auto simp: apply_response_format_def format_minimal_def Let_def update_conv' delete_conv'
        split: if_splits)
next
  case ID_ONLY
  with assms show ?thesis
    by (auto simp: apply_response_format_def)
qed

lemma apply_response_format_Inr:
  "apply_response_format memo params query = Inr (format_note memo params query)"
  using apply_response_format_total [of memo params query]
  by (auto simp: format_note_def)

lemma map_result_format:
  "map_result (\<lambda>memo. apply_response_format memo params query) xs =
     Inr (map (\<lambda>memo. format_note memo params query) xs)"
  by (rule map_result_map) (rule apply_response_format_Inr)

lemma formatted_page_eq:
  "formatted_page all_memos params =
     Inr (map (\<lambda>memo. format_note memo params (p_query params)) (page_records all_memos params))"
  by (simp add: formatted_page_def page_records_def Let_def map_result_format
      split: prod.splits)

lemma length_sort_by_create_time: "length (sort_by_create_time xs) = length xs"
  using mset_sort_reverse [of _ xs, THEN arg_cong [of _ _ size]]
  by (simp add: sort_by_create_time_def)

lemma search_200_Inr:
  assumes "search_memos_enhanced (Response 200 all_memos) params = Inr r"
  shows "relevance_resort params
           (map (\<lambda>memo. format_note memo params (p_query params))
              (page_records all_memos params)) = Inr (r_memos r)"
    and "r_total_count r = int (length (filter_stage all_memos params))"
    and "r_has_more r =
           (p_offset params + p_limit params < int (length (filter_stage all_memos params)))"
    and "r_next_offset r = (if r_has_more r then p_offset params + p_limit params else - 1)"
  using assms
  by (auto simp: search_memos_enhanced_def page_records_def paginate_results_def Let_def
      map_result_format length_sort_by_create_time split: sum.splits)

lemma search_200_returns:
  assumes "relevance_resort params
           (map (\<lambda>memo. format_note memo params (p_query params))
              (page_records all_memos params)) = Inr fm"
  shows "\<exists>r. search_memos_enhanced (Response 200 all_memos) params = Inr r"
  using assms
  by (auto simp: search_memos_enhanced_def page_records_def paginate_results_def Let_def
      map_result_format split: sum.splits)

lemma relevance_resort_mset:
  "relevance_resort params fs = Inr r \<Longrightarrow> mset r = mset fs"
  by (auto simp: relevance_resort_def sort_by_key_reverse_def mset_sort_reverse
      split: if_splits)

lemma relevance_resort_no_key:
  "(\<And>f. f \<in> set fs \<Longrightarrow> map_of f ''relevance_score'' = None) \<Longrightarrow>
   relevance_resort params fs = Inr fs"
  by (auto simp: relevance_resort_def resort_condition_def list_ex_iff)

lemma relevance_resort_numeric:
  assumes "\<And>f. f \<in> set fs \<Longrightarrow> \<exists>s. map_of f ''relevance_score'' = Some (JNum s)"
  shows "\<exists>r. relevance_resort params fs = Inr r"
proof -
  have "list_all is_num (map relevance_key fs)"
    using assms by (fastforce simp: list_all_iff relevance_key_def)
  then show ?thesis
    by (simp add: relevance_resort_def sort_by_key_reverse_def keys_comparable_def)
qed

lemma format_note_relevance:
  "map_of (format_note memo params query) ''relevance_score'' =
     (case p_response_format params of
        ID_ONLY \<Rightarrow> None
      | MINIMAL \<Rightarrow> None
      | SUMMARY \<Rightarrow> (if query = [] then None
                    else (case calculate_relevance_score (get_str (memo_content memo)) query
                                 (Some (get_list (memo_tags memo))) of
                            Inr s \<Rightarrow> Some (JNum s) | Inl e \<Rightarrow> None))
      | FULL \<Rightarrow> (if ''relevance_score'' \<in> set (p_fields params)
                 then memo_lookup memo ''relevance_score'' else None))"
  by (rule apply_response_format_relevance) (rule apply_response_format_Inr)

lemma format_note_relevance_summary:
  assumes "p_response_format params = SUMMARY" and "query \<noteq> []"
  shows "\<exists>s. map_of (format_note memo params query) ''relevance_score'' = Some (JNum s)"
proof -
  obtain s where "calculate_relevance_score (get_str (memo_content memo)) query
      (Some (get_list (memo_tags memo))) = Inr s"
    using calculate_relevance_score_total by blast
  with assms show ?thesis by (simp add: format_note_relevance)
qed

lemma search_returns_non_full:
  assumes "p_response_format params \<noteq> FULL"
  shows "\<exists>r. search_memos_enhanced (Response 200 all_memos) params = Inr r"
proof -
  let ?fs = "map (\<lambda>memo. format_note memo params (p_query params))
              (page_records all_memos params)"
  have "\<exists>fm. relevance_resort params ?fs = Inr fm"
  proof (cases "p_response_format params = SUMMARY \<and> p_query params \<noteq> []")
    case True
    then have "\<exists>s. map_of f ''relevance_score'' = Some (JNum s)" if "f \<in> set ?fs" for f
      using that format_note_relevance_summary by auto
    then show ?thesis by (rule relevance_resort_numeric)
  next
    case False
    with assms have "map_of f ''relevance_score'' = None" if "f \<in> set ?fs" for f
      using that by (cases "p_response_format params") (auto simp: format_note_relevance)
    then have "relevance_resort params ?fs = Inr ?fs" by (rule relevance_resort_no_key)
    then show ?thesis by blast
  qed
  then show ?thesis using search_200_returns by blast
qed

lemma apply_date_filter_eq:
  "apply_date_filter ms df dt =
     filter (\<lambda>memo.
        (case df of None \<Rightarrow> True | Some d \<Rightarrow> d = [] \<or> d \<le> get_str (memo_createTime memo))
        \<and> (case dt of None \<Rightarrow> True | Some d \<Rightarrow> d = [] \<or> get_str (memo_createTime memo) \<le> d)) ms"
  by (cases df; cases dt) (auto simp: apply_date_filter_def Let_def intro: filter_cong)

lemma filter_stage_eq: "filter_stage all_memos params = filter (spec_keeps params) all_memos"
proof -
  let ?Q = "\<lambda>memo. p_query params = []
      \<or> sublist (py_lower (p_query params)) (py_lower (get_str (memo_content memo)))"
  let ?T = "\<lambda>memo. p_tags_filter params = []
      \<or> (\<exists>tag \<in> set (get_list (memo_tags memo)). tag \<in> set (p_tags_filter params))"
  have q: "(if p_query params \<noteq> []
            then filter (\<lambda>memo. py_in (py_lower (p_query params))
                                    (py_lower (get_str (memo_content memo)))) all_memos
            else all_memos) = filter ?Q all_memos"
    by (simp add: py_in_sublist)
  have t: "(if p_tags_filter params \<noteq> []
            then filter (\<lambda>memo. list_ex (\<lambda>tag. tag \<in> set (get_list (memo_tags memo)))
                                    (p_tags_filter params)) ms
            else ms) = filter ?T ms" for ms
    by (auto simp: list_ex_iff intro: filter_cong)
  have d: "(if truthy (p_date_from params) \<or> truthy (p_date_to params)
            then apply_date_filter ms (p_date_from params) (p_date_to params) else ms)
           = apply_date_filter ms (p_date_from params) (p_date_to params)" for ms
    by (auto simp: truthy_def apply_date_filter_def Let_def split: option.splits)
  have "filter_stage all_memos params =
      apply_date_filter (filter ?T (filter ?Q all_memos)) (p_date_from params) (p_date_to params)"
    unfolding filter_stage_def Let_def q t d ..
  also have "\<dots> = filter (spec_keeps params) all_memos"
    unfolding apply_date_filter_eq filter_filter
    by (rule filter_cong) (auto simp: spec_keeps_def)
  finally show ?thesis .
qed

lemma py_split_head:
  "\<exists>ls. py_split sep s = takeWhile (\<lambda>c. c \<noteq> sep) s # ls"
  by (induction s) auto

lemma first_line_takeWhile: "first_line content = takeWhile (\<lambda>c. c \<noteq> NL) content"
proof -
  obtain ls where "py_split NL content = takeWhile (\<lambda>c. c \<noteq> NL) content # ls"
    using py_split_head by blast
  then show ?thesis by (cases content) (simp_all add: first_line_def)
qed

lemma py_find_0_None: "py_find s sub 0 = None \<Longrightarrow> \<not> sublist sub s"
  using find_aux_sublist [of sub s 0] by (simp add: py_find_def)

lemma py_find_0_Least:
  assumes "py_find s sub 0 = Some p"
  shows "(LEAST i. prefix sub (drop i s)) = p" and "sublist sub s"
proof -
  from assms have f: "find_aux sub s 0 = Some p" by (simp add: py_find_def)
  from find_aux_Some [OF f] have a: "prefix sub (drop p s)"
    "\<forall>j<p. \<not> prefix sub (drop j s)" by auto
  show "(LEAST i. prefix sub (drop i s)) = p"
  proof (rule Least_equality)
    show "prefix sub (drop p s)" by (rule a(1))
  next
    fix y assume "prefix sub (drop y s)"
    with a(2) show "p \<le> y" by (meson not_le_imp_less)
  qed
  show "sublist sub s"
    using find_aux_sublist [of sub s 0] f by simp
qed

lemma py_find_None:
  assumes "py_find s sub start = None" and "sub \<noteq> []" and "start \<le> i"
  shows "\<not> prefix sub (drop i s)"
proof (cases "length s < start")
  case True
  with assms(3) have "drop i s = []" by simp
  with assms(2) show ?thesis by simp
next
  case False
  with assms(1) have "find_aux sub (drop start s) start = None" by (simp add: py_find_def)
  from find_aux_None [OF this, of "i - start"] assms(3) show ?thesis by simp
qed

lemma py_find_Some:
  assumes "py_find s sub start = Some pos" and "sub \<noteq> []"
  shows "start \<le> pos" and "pos < length s" and "prefix sub (drop pos s)"
    and "\<And>j. start \<le> j \<Longrightarrow> j < pos \<Longrightarrow> \<not> prefix sub (drop j s)"
proof -
  from assms(1) have le: "start \<le> length s"
    and f: "find_aux sub (drop start s) start = Some pos"
    by (auto simp: py_find_def split: if_splits)
  from find_aux_Some [OF f] have a: "start \<le> pos" "pos \<le> start + length (drop start s)"
    "prefix sub (drop (pos - start) (drop start s))"
    "\<forall>j<pos - start. \<not> prefix sub (drop j (drop start s))" by auto
  show "start \<le> pos" by (rule a(1))
  from a(1) a(3) have p: "prefix sub (drop pos s)" by simp
  then show "prefix sub (drop pos s)" .
  from a(2) le have "pos \<le> length s" by simp
  moreover have "pos \<noteq> length s" using p assms(2) by auto
  ultimately show "pos < length s" by simp
  fix j assume "start \<le> j" "j < pos"
  then have "j - start < pos - start" by simp
  with a(4) have "\<not> prefix sub (drop (j - start) (drop start s))" by blast
  with \<open>start \<le> j\<close> show "\<not> prefix sub (drop j s)" by simp
qed

lemma filter_upt_first:
  assumes "start \<le> pos" and "pos < n" and "P pos"
    and "\<And>j. start \<le> j \<Longrightarrow> j < pos \<Longrightarrow> \<not> P j"
  shows "filter P [start ..< n] = pos # filter P [Suc pos ..< n]"
proof -
  have "[start ..< n] = [start ..< pos] @ pos # [Suc pos ..< n]"
    using assms(1,2) by (metis le_eq_less_or_eq less_imp_le_nat upt_add_eq_append upt_conv_Cons
        le_Suc_ex)
  moreover have "filter P [start ..< pos] = []"
    using assms(4) by (simp add: filter_empty_conv)
  ultimately show ?thesis using assms(3) by simp
qed

lemma snippets_from_eq:
  assumes "query \<noteq> []"
  shows "snippets_from content query context_chars start =
     map (snippet_at content query context_chars)
       (filter (\<lambda>i. prefix (py_lower query) (drop i (py_lower content)))
          [start ..< length content])"
  using assms
proof (induction content query context_chars start rule: snippets_from.induct)
  case (1 content query context_chars start)
  let ?P = "\<lambda>i. prefix (py_lower query) (drop i (py_lower content))"
  from "1.prems" have q: "py_lower query \<noteq> []" by (simp add: py_lower_Nil_iff)
  show ?case
  proof (cases "py_find (py_lower content) (py_lower query) start")
    case None
    have "filter ?P [start ..< length content] = []"
      using py_find_None [OF None q] by (simp add: filter_empty_conv)
    with None show ?thesis
      by (subst snippets_from.simps) simp
  next
    case (Some pos)
    note f = py_find_Some [OF Some q]
    have "filter ?P [start ..< length content] = pos # filter ?P [Suc pos ..< length content]"
      using f by (intro filter_upt_first) (simp_all add: length_py_lower)
    moreover have "snippets_from content query context_chars (Suc pos) =
       map (snippet_at content query context_chars) (filter ?P [Suc pos ..< length content])"
      using "1.IH" [OF Some "1.prems"] .
    ultimately show ?thesis
      using Some by (subst snippets_from.simps) simp
  qed
qed

lemma replace_aux_skip:
  "replace_aux old new (xs @ rest) (length xs) = replace_aux old new rest 0"
  by (induction xs) simp_all

lemma replace_aux_no_occurrence:
  assumes "old \<noteq> []" and "\<not> sublist old s"
  shows "replace_aux old new s 0 = s"
  using assms(2)
proof (induction s)
  case Nil
  then show ?case by simp
next
  case (Cons c cs)
  from Cons.prems assms(1) have "\<not> prefix old (c # cs)" and "\<not> sublist old cs"
    by (cases old; simp add: sublist_Cons_right)+
  with Cons.IH show ?case by simp
qed

lemma replace_aux_first:
  assumes "old \<noteq> []"
    and "\<forall>i<length pre. \<not> prefix old (drop i (pre @ old @ rest))"
  shows "replace_aux old new (pre @ old @ rest) 0
           = pre @ new @ replace_aux old new rest 0"
  using assms(2)
proof (induction pre)
  case Nil
  from assms(1) obtain x xs where old: "old = x # xs" by (cases old) auto
  have "replace_aux old new (xs @ rest) (length xs) = replace_aux old new rest 0"
    by (rule replace_aux_skip)
  then show ?case by (simp add: old)
next
  case (Cons c pre)
  from Cons.prems have "\<not> prefix old ((c # pre) @ old @ rest)" by force
  moreover have "\<forall>i<length pre. \<not> prefix old (drop i (pre @ old @ rest))"
    using Cons.prems by force
  ultimately show ?case using Cons.IH by simp
qed

lemma calculate_relevance_score_exact:
  "calculate_relevance_score content query tags
     = calculate_relevance_score_with exact_ops content query tags"
proof -
  have p: "position_score_with exact_ops fm content = position_score fm content" for fm
    by (simp add: position_score_with_def position_score_def exact_ops_def split: option.splits)
  have m: "py_min exact_ops 1 x = min 1 x" for x
    by (simp add: py_min_def exact_ops_def min_def)
  have n: "f_nat exact_ops = real" "f_half exact_ops = 1 / 2" "f_add exact_ops = (+)"
    "f_div exact_ops = (/)"
    by (simp_all add: exact_ops_def)
  show ?thesis
    unfolding calculate_relevance_score_def calculate_relevance_score_with_def p Let_def n
    by (auto simp: m split: option.splits sum.splits)
qed

lemma nonoverlapping_shift:
  assumes "nonoverlapping sub (c # cs) ps" and "\<forall>p \<in> set ps. 0 < p"
  shows "nonoverlapping sub cs (map (\<lambda>p. p - 1) ps)"
proof -
  have "prefix sub (drop (p - 1) cs)" if "p \<in> set ps" for p
  proof -
    from that assms have "prefix sub (drop p (c # cs))" "0 < p"
      by (auto simp: nonoverlapping_def)
    then show ?thesis by (cases p) simp_all
  qed
  moreover have "sorted_wrt (\<lambda>a b. (a - 1) + length sub \<le> b - 1) ps"
  proof (rule sorted_wrt_mono_rel [of ps "\<lambda>a b. a + length sub \<le> b"])
    show "sorted_wrt (\<lambda>a b. a + length sub \<le> b) ps"
      using assms(1) by (simp add: nonoverlapping_def)
  next
    fix a b assume "a \<in> set ps" "b \<in> set ps" "a + length sub \<le> b"
    with assms(2) show "(a - 1) + length sub \<le> b - 1" by force
  qed
  ultimately show ?thesis
    by (simp add: nonoverlapping_def sorted_wrt_map)
qed

lemma nonoverlapping_unshift:
  assumes "nonoverlapping sub cs ps"
  shows "nonoverlapping sub (c # cs) (map Suc ps)"
  using assms by (simp add: nonoverlapping_def sorted_wrt_map)

lemma count_aux_upper:
  assumes "sub \<noteq> []"
  shows "nonoverlapping sub s ps \<Longrightarrow> \<forall>p \<in> set ps. k \<le> p \<Longrightarrow> length ps \<le> count_aux sub s k"
proof (induction s arbitrary: k ps)
  case Nil
  have "ps = []"
  proof (cases ps)
    case (Cons p ps')
    with Nil.prems(1) assms show ?thesis by (auto simp: nonoverlapping_def)
  qed simp
  then show ?case by simp
next
  case (Cons c cs)
  show ?case
  proof (cases "0 < k")
    case True
    with Cons.prems(2) have pos: "\<forall>p \<in> set ps. 0 < p" by force
    have "length (map (\<lambda>p. p - 1) ps) \<le> count_aux sub cs (k - 1)"
    proof (rule Cons.IH)
      show "nonoverlapping sub cs (map (\<lambda>p. p - 1) ps)"
        by (rule nonoverlapping_shift [OF Cons.prems(1) pos])
      show "\<forall>p \<in> set (map (\<lambda>p. p - 1) ps). k - 1 \<le> p"
        using Cons.prems(2) by force
    qed
    with True show ?thesis by simp
  next
    case k0: False
    show ?thesis
    proof (cases "prefix sub (c # cs)")
      case True
      show ?thesis
      proof (cases ps)
        case Nil
        then show ?thesis by simp
      next
        case (Cons p ps')
        with Cons.prems(1) have n': "nonoverlapping sub (c # cs) ps'"
          and far: "\<forall>q \<in> set ps'. p + length sub \<le> q"
          by (auto simp: nonoverlapping_def)
        from assms have l: "0 < length sub" by simp
        have pos: "\<forall>q \<in> set ps'. 0 < q"
        proof
          fix q assume "q \<in> set ps'"
          with far have "p + length sub \<le> q" by blast
          with l show "0 < q" by linarith
        qed
        have "length (map (\<lambda>p. p - 1) ps') \<le> count_aux sub cs (length sub - 1)"
        proof (rule Cons.IH)
          show "nonoverlapping sub cs (map (\<lambda>p. p - 1) ps')"
            by (rule nonoverlapping_shift [OF n' pos])
          show "\<forall>q \<in> set (map (\<lambda>p. p - 1) ps'). length sub - 1 \<le> q"
          proof
            fix q assume "q \<in> set (map (\<lambda>p. p - 1) ps')"
            then obtain q' where q': "q' \<in> set ps'" "q = q' - 1" by auto
            with far have "p + length sub \<le> q'" by blast
            with q'(2) show "length sub - 1 \<le> q" by linarith
          qed
        qed
        with True k0 Cons show ?thesis by simp
      qed
    next
      case False
      have pos: "\<forall>p \<in> set ps. 0 < p"
      proof
        fix p assume "p \<in> set ps"
        with Cons.prems(1) have "prefix sub (drop p (c # cs))" by (simp add: nonoverlapping_def)
        with False show "0 < p" by (cases p) simp_all
      qed
      have "length (map (\<lambda>p. p - 1) ps) \<le> count_aux sub cs 0"
      proof (rule Cons.IH)
        show "nonoverlapping sub cs (map (\<lambda>p. p - 1) ps)"
          by (rule nonoverlapping_shift [OF Cons.prems(1) pos])
        show "\<forall>p \<in> set (map (\<lambda>p. p - 1) ps). 0 \<le> p" by simp
      qed
      with False k0 show ?thesis by simp
    qed
  qed
qed

lemma count_aux_attained:
  assumes "sub \<noteq> []"
  shows "\<exists>ps. nonoverlapping sub s ps \<and> (\<forall>p \<in> set ps. k \<le> p) \<and> length ps = count_aux sub s k"
proof (induction s arbitrary: k)
  case Nil
  have "nonoverlapping sub [] []" by (simp add: nonoverlapping_def)
  then show ?case by force
next
  case (Cons c cs)
  show ?case
  proof (cases "0 < k")
    case True
    from Cons.IH [of "k - 1"] obtain ps where ps: "nonoverlapping sub cs ps"
      "\<forall>p \<in> set ps. k - 1 \<le> p" "length ps = count_aux sub cs (k - 1)" by blast
    have "nonoverlapping sub (c # cs) (map Suc ps)" by (rule nonoverlapping_unshift [OF ps(1)])
    moreover have "\<forall>p \<in> set (map Suc ps). k \<le> p" using ps(2) by force
    moreover have "length (map Suc ps) = count_aux sub (c # cs) k" using ps(3) True by simp
    ultimately show ?thesis by blast
  next
    case k0: False
    show ?thesis
    proof (cases "prefix sub (c # cs)")
      case True
      from Cons.IH [of "length sub - 1"] obtain ps where ps: "nonoverlapping sub cs ps"
        "\<forall>p \<in> set ps. length sub - 1 \<le> p" "length ps = count_aux sub cs (length sub - 1)"
        by blast
      from assms have l: "0 < length sub" by simp
      have "nonoverlapping sub (c # cs) (0 # map Suc ps)"
        using nonoverlapping_unshift [OF ps(1), of c] True ps(2) l
        by (force simp: nonoverlapping_def)
      moreover have "\<forall>p \<in> set (0 # map Suc ps). k \<le> p" using k0 by simp
      moreover have "length (0 # map Suc ps) = count_aux sub (c # cs) k"
        using ps(3) True k0 by simp
      ultimately show ?thesis by blast
    next
      case False
      from Cons.IH [of 0] obtain ps where ps: "nonoverlapping sub cs ps"
        "length ps = count_aux sub cs 0" by blast
      have "nonoverlapping sub (c # cs) (map Suc ps)" by (rule nonoverlapping_unshift [OF ps(1)])
      moreover have "\<forall>p \<in> set (map Suc ps). k \<le> p" using k0 by simp
      moreover have "length (map Suc ps) = count_aux sub (c # cs) k"
        using ps(2) False k0 by simp
      ultimately show ?thesis by blast
    qed
  qed
qed

lemma py_count_occurrence_count:
  assumes "sub \<noteq> []"
  shows "py_count s sub = occurrence_count sub s"
proof -
  from count_aux_attained [OF assms, of s 0] obtain ps where
    "nonoverlapping sub s ps" "length ps = count_aux sub s 0" by blast
  then have a: "\<exists>ps. nonoverlapping sub s ps \<and> length ps = count_aux sub s 0" by blast
  have b: "k \<le> count_aux sub s 0" if "\<exists>ps. nonoverlapping sub s ps \<and> length ps = k" for k
    using that count_aux_upper [OF assms, of s _ 0] by auto
  have "occurrence_count sub s = count_aux sub s 0"
    unfolding occurrence_count_def using a b by (rule Greatest_equality)
  with assms show ?thesis by (simp add: py_count_def)
qed

lemma calculate_relevance_score_with_spec:
  "calculate_relevance_score_with A content query tags
     = Inr (spec_score_with A content query (get_list tags))"
proof (cases "query = []")
  case True
  then show ?thesis by (simp add: calculate_relevance_score_with_def spec_score_with_def)
next
  case False
  let ?q = "py_lower query" and ?c = "py_lower content"
  from False have q: "?q \<noteq> []" by (simp add: py_lower_Nil_iff)
  have cnt: "py_count ?c ?q = occurrence_count ?q ?c"
    by (rule py_count_occurrence_count [OF q])
  have tag: "(case tags of None \<Rightarrow> f_nat A 0
              | Some ts \<Rightarrow> if ts \<noteq> [] \<and> list_ex (\<lambda>tag. py_in ?q (py_lower tag)) ts
                           then f_nat A 1 else f_nat A 0)
            = (if \<exists>tag \<in> set (get_list tags). sublist ?q (py_lower tag)
               then f_nat A 1 else f_nat A 0)"
    by (cases tags) (auto simp: get_list_def list_ex_iff py_in_sublist)
  have pos: "position_score_with A (py_find ?c ?q 0) content
     = Inr (if sublist ?q ?c
            then f_sub A (f_nat A 1)
                   (f_int_div A (LEAST i. prefix ?q (drop i ?c)) (length content))
            else f_nat A 0)"
  proof (cases "py_find ?c ?q 0")
    case None
    then show ?thesis using py_find_0_None by (simp add: position_score_with_def)
  next
    case (Some i)
    from py_find_0_Some [OF Some q] have "i < length content"
      by (simp add: length_py_lower)
    then have "length content \<noteq> 0" by auto
    with Some py_find_0_Least [OF Some] show ?thesis
      by (simp add: position_score_with_def)
  qed
  show ?thesis
    using False
    by (simp add: calculate_relevance_score_with_def spec_score_with_def Let_def tag pos cnt
        py_in_sublist first_line_takeWhile py_min_def)
qed

lemma relevance_resort_sorted:
  assumes "relevance_resort params fs = Inr r"
    and "resort_condition params fs"
    and "list_all is_num (map relevance_key fs)"
  shows "sorted_wrt (\<lambda>a b. score_of b \<le> score_of a) r"
proof -
  have num: "\<exists>s. relevance_key a = JNum s" if "a \<in> set fs" for a
  proof -
    from that assms(3) have "is_num (relevance_key a)" by (simp add: list_all_iff)
    then show ?thesis by (cases "relevance_key a") simp_all
  qed
  have eq: "jval_less (relevance_key a) (relevance_key b) = (score_of a < score_of b)"
    if "a \<in> set fs" "b \<in> set fs" for a b
    using num [OF that(1)] num [OF that(2)] by (auto simp: score_of_def)
  from assms have "r = sort_reverse (\<lambda>a b. jval_less (relevance_key a) (relevance_key b)) fs"
    by (simp add: relevance_resort_def sort_by_key_reverse_def keys_comparable_def)
  also have "\<dots> = sort_reverse (\<lambda>a b. score_of a < score_of b) fs"
    by (rule sort_reverse_cong) (rule eq)
  finally show ?thesis by (simp add: sorted_sort_reverse)
qed

lemma relevance_resort_sorted_summary:
  assumes "relevance_resort params (map (\<lambda>memo. format_note memo params (p_query params)) ms)
             = Inr r"
    and "p_response_format params = SUMMARY" and "p_query params \<noteq> []"
  shows "sorted_wrt (\<lambda>a b. score_of b \<le> score_of a) r"
proof (cases "ms = []")
  case True
  with assms(1) show ?thesis
    by (simp add: relevance_resort_def resort_condition_def sort_by_key_reverse_def
        sort_reverse_def split: if_splits)
next
  case False
  let ?fs = "map (\<lambda>memo. format_note memo params (p_query params)) ms"
  have key: "\<exists>s. map_of f ''relevance_score'' = Some (JNum s)" if "f \<in> set ?fs" for f
    using that format_note_relevance_summary [OF assms(2,3)] by auto
  have "list_all is_num (map relevance_key ?fs)"
    using key by (fastforce simp: list_all_iff relevance_key_def)
  moreover from False obtain m where "m \<in> set ms" by (cases ms) auto
  then have "format_note m params (p_query params) \<in> set ?fs" by simp
  with key have "list_ex (\<lambda>memo. map_of memo ''relevance_score'' \<noteq> None) ?fs"
    unfolding list_ex_iff by fastforce
  with assms(3) have "resort_condition params ?fs" by (simp add: resort_condition_def)
  ultimately show ?thesis using assms(1) relevance_resort_sorted by blast
qed

lemma page_records_subset: "set (page_records all_memos params) \<subseteq> set all_memos"
proof -
  have s: "set (py_slice xs a b) \<subseteq> set xs" for xs :: "memo list" and a b
    by (auto simp: py_slice_def Let_def dest: in_set_takeD in_set_dropD)
  have "set (sort_by_create_time xs) = set xs" for xs
    by (simp add: sort_by_create_time_def sort_reverse_def set_sort_by)
  moreover have "set (filter_stage all_memos params) \<subseteq> set all_memos"
    by (simp add: filter_stage_eq)
  ultimately show ?thesis
    using s by (fastforce simp: page_records_def paginate_results_def Let_def)
qed

lemma sorted_wrt_py_slice: "sorted_wrt P xs \<Longrightarrow> sorted_wrt P (py_slice xs a b)"
  by (simp add: py_slice_def Let_def sorted_wrt_take sorted_wrt_drop)

lemma page_records_sorted:
  "sorted_wrt (\<lambda>a b. get_str (memo_createTime b) \<le> get_str (memo_createTime a))
     (page_records all_memos params)"
proof -
  have "sorted_wrt (\<lambda>a b. get_str (memo_createTime b) \<le> get_str (memo_createTime a))
          (sort_by_create_time (filter_stage all_memos params))"
    unfolding sort_by_create_time_def
    by (rule sorted_sort_reverse [of "\<lambda>m. get_str (memo_createTime m)"])
  then show ?thesis
    by (simp add: page_records_def paginate_results_def Let_def sorted_wrt_py_slice)
qed

lemma apply_response_format_snippets:
  assumes "apply_response_format memo params query = Inr f"
  shows "map_of f ''match_snippets'' =
     (case p_response_format params of
        ID_ONLY \<Rightarrow> None
      | MINIMAL \<Rightarrow> None
      | SUMMARY \<Rightarrow>
          (if query \<noteq> [] \<and> extract_snippet_around_match (get_str (memo_content memo)) query 50 \<noteq> []
           then Some (JStrs (take 3 (extract_snippet_around_match
                                       (get_str (memo_content memo)) query 50)))
           else None)
      | FULL \<Rightarrow> (if ''match_snippets'' \<in> set (p_fields params)
                 then memo_lookup memo ''match_snippets'' else None))"
proof (cases "p_response_format params")
  case FULL
  with assms show ?thesis
    by (auto simp: apply_response_format_def Let_def map_of_format_full split: if_splits)
next
  case SUMMARY
  with assms show ?thesis
    by (auto simp: apply_response_format_def format_summary_def Let_def update_conv' delete_conv'
        split: sum.splits if_splits)
next
  case MINIMAL
  with assms show ?thesis
    by (auto simp: apply_response_format_def format_minimal_def Let_def update_conv' delete_conv'
        split: if_splits)
next
  case ID_ONLY
  with assms show ?thesis
    by (auto simp: apply_response_format_def)
qed

section \<open>Pagination\<close>

text \<open>
  Claim C1. For every list and every constructed parameter value (\<open>post_init\<close> of the
  given fields), the paginate stage returns the elements at the indices from \<open>offset\<close> up
  to \<open>offset + limit\<close>, clipped to the list; an offset at or beyond the length gives the
  empty page and no error; the total count is the length of the list; \<open>has_more\<close> holds
  exactly when \<open>offset + limit\<close> is below the total count. A response of the search has
  the count of the filtered records, that \<open>has_more\<close>, and \<open>next_offset\<close> equal to
  \<open>offset + limit\<close> when \<open>has_more\<close> holds and to \<open>-1\<close> otherwise; and the search
  does respond whenever the format is not \<open>FULL\<close>.
\<close>

theorem paginate_contract:
  assumes "params = post_init p"
  shows "paginate_results all_items params =
       (map ((!) all_items)
          [nat (p_offset params) ..<
             min (nat (p_offset params + p_limit params)) (length all_items)],
        p_offset params + p_limit params < int (length all_items),
        int (length all_items))
    \<and> (int (length all_items) \<le> p_offset params \<longrightarrow>
          fst (paginate_results all_items params) = [])
    \<and> (\<forall>r. search_memos_enhanced (Response 200 all_memos) params = Inr r \<longrightarrow>
          r_total_count r = int (length (filter_stage all_memos params))
          \<and> r_has_more r = (p_offset params + p_limit params < r_total_count r)
          \<and> r_next_offset r = (if r_has_more r then p_offset params + p_limit params else - 1))
    \<and> (p_response_format params \<noteq> FULL \<longrightarrow>
          (\<exists>r. search_memos_enhanced (Response 200 all_memos) params = Inr r))"
proof -
  have a: "paginate_results all_items params =
       (map ((!) all_items)
          [nat (p_offset params) ..<
             min (nat (p_offset params + p_limit params)) (length all_items)],
        p_offset params + p_limit params < int (length all_items),
        int (length all_items))"
    unfolding assms by (rule paginate_constructed)
  have b: "fst (paginate_results all_items params) = []"
    if "int (length all_items) \<le> p_offset params"
    using that by (simp add: a)
  have c: "r_total_count r = int (length (filter_stage all_memos params))
          \<and> r_has_more r = (p_offset params + p_limit params < r_total_count r)
          \<and> r_next_offset r = (if r_has_more r then p_offset params + p_limit params else - 1)"
    if "search_memos_enhanced (Response 200 all_memos) params = Inr r" for r
    using search_200_Inr(2-4) [OF that] by simp
  show ?thesis
    using a b c search_returns_non_full [of params all_memos] by blast
qed

text \<open>An instance: twelve records, offset 10 and limit 5, as in the scenario of the
  specification; the page has the last two, and there is no further page.\<close>

theorem paginate_contract_witness:
  "default_params\<lparr>p_offset := 10, p_limit := 5\<rparr>
     = post_init (default_params\<lparr>p_offset := 10, p_limit := 5\<rparr>)
   \<and> paginate_results [0 ..< 12] (default_params\<lparr>p_offset := 10, p_limit := 5\<rparr>)
       = ([10, 11], False, 12)"
proof -
  have h: "default_params\<lparr>p_offset := 10, p_limit := 5\<rparr>
     = post_init (default_params\<lparr>p_offset := 10, p_limit := 5\<rparr>)"
    by (simp add: post_init_def default_params_def Let_def)
  have "map ((!) [0 ..< 12]) [10 ..< 12] = [10, 11 :: nat]"
    by (simp add: upt_rec)
  then show ?thesis
    using h paginate_contract [OF h, of "[0 ..< 12]" "[]"]
    by (simp add: default_params_def)
qed

text \<open>
  Claim C8. For every list of items, paginating with offset 0 and a limit equal to the
  length of the list is the identity on the page: the page is the list, and \<open>has_more\<close>
  is false.
\<close>

theorem paginate_full_length_identity:
  assumes "p_offset params = 0" and "p_limit params = int (length items)"
  shows "paginate_results items params = (items, False, int (length items))"
  using assms by (simp add: paginate_results_def Let_def py_slice_def)

text \<open>An instance of claim C8 on a list of three items.\<close>

theorem paginate_full_length_identity_witness:
  "p_offset (default_params\<lparr>p_limit := 3\<rparr>) = 0
   \<and> p_limit (default_params\<lparr>p_limit := 3\<rparr>) = int (length [1, 2, 3 :: nat])
   \<and> paginate_results [1, 2, 3 :: nat] (default_params\<lparr>p_limit := 3\<rparr>) = ([1, 2, 3], False, 3)"
proof -
  have o: "p_offset (default_params\<lparr>p_limit := 3\<rparr>) = 0"
    by (simp add: default_params_def)
  have l: "p_limit (default_params\<lparr>p_limit := 3\<rparr>) = int (length [1, 2, 3 :: nat])"
    by simp
  show ?thesis
    using o l paginate_full_length_identity [OF o l] by simp
qed

section \<open>Relevance score\<close>

text \<open>
  Claim C9. For every content, non-empty query and tag list the computation of the
  relevance score does not divide by zero: on the empty content \<^verbatim>\<open>find\<close> gives the
  no-match value, the position score never is the division error, and the score is
  returned and lies between 0 and 1.
\<close>

theorem relevance_score_no_division_by_zero:
  assumes "query \<noteq> []"
  shows "py_find (py_lower []) (py_lower query) 0 = None
    \<and> position_score (py_find (py_lower content) (py_lower query) 0) content
        \<noteq> Inl ZeroDivisionError
    \<and> (\<exists>s. calculate_relevance_score content query tags = Inr s \<and> 0 \<le> s \<and> s \<le> 1)"
proof -
  from assms have "py_lower query \<noteq> []" by (simp add: py_lower_Nil_iff)
  then have "py_find (py_lower []) (py_lower query) 0 = None"
    by (simp add: py_find_def py_lower_def)
  moreover have "position_score (py_find (py_lower content) (py_lower query) 0) content
        \<noteq> Inl ZeroDivisionError"
    using position_score_total [OF assms, of content] by auto
  ultimately show ?thesis
    using calculate_relevance_score_total [of content query tags] by blast
qed

text \<open>An instance of claim C9: the empty content and the query \<^verbatim>\<open>a\<close>.\<close>

theorem relevance_score_no_division_by_zero_witness:
  "''a'' \<noteq> []
    \<and> py_find (py_lower []) (py_lower ''a'') 0 = None
    \<and> position_score (py_find (py_lower []) (py_lower ''a'') 0) [] \<noteq> Inl ZeroDivisionError
    \<and> (\<exists>s. calculate_relevance_score [] ''a'' None = Inr s \<and> 0 \<le> s \<and> s \<le> 1)"
proof -
  have h: "''a'' \<noteq> []" by simp
  show ?thesis
    using h relevance_score_no_division_by_zero [OF h, of "[]" None] by blast
qed

section \<open>Filter stage\<close>

text \<open>
  Claim C2. For every collection of records and every parameter value, the filter stage
  keeps exactly the records that satisfy all active predicates: with a non-empty query,
  the lowered query is a substring of the lowered content; with a non-empty tag filter,
  some tag of the record equals some filter tag; with a date bound set, the creation time
  is not below \<open>date_from\<close> and not above \<open>date_to\<close> in the lexicographic order of
  strings. When no record satisfies them the result is the empty list.
\<close>

theorem filter_stage_contract:
  "filter_stage all_memos params = filter (spec_keeps params) all_memos
   \<and> ((\<forall>memo \<in> set all_memos. \<not> spec_keeps params memo) \<longrightarrow>
        filter_stage all_memos params = [])"
  by (simp add: filter_stage_eq)

text \<open>Instances of claim C2: a query that matches nothing, and a query, a tag and an upper
  date bound that together keep one record of two.\<close>

theorem filter_stage_contract_witness:
  "\<not> spec_keeps (default_params\<lparr>p_query := ''zzz''\<rparr>)
        (mk_memo ''m1'' ''Hello'' [''work''] ''2024-01-02'')
   \<and> \<not> spec_keeps (default_params\<lparr>p_query := ''zzz''\<rparr>)
        (mk_memo ''m2'' ''bye'' [] ''2024-01-03'')
   \<and> filter_stage [mk_memo ''m1'' ''Hello'' [''work''] ''2024-01-02'',
                    mk_memo ''m2'' ''bye'' [] ''2024-01-03'']
        (default_params\<lparr>p_query := ''zzz''\<rparr>) = []
   \<and> filter (spec_keeps (default_params\<lparr>p_query := ''hello'', p_tags_filter := [''work''],
                                          p_date_to := Some ''2024-01-02''\<rparr>))
        [mk_memo ''m1'' ''Hello'' [''work''] ''2024-01-02'',
         mk_memo ''m2'' ''hello'' [] ''2024-01-03'']
      = [mk_memo ''m1'' ''Hello'' [''work''] ''2024-01-02'']"
proof -
  let ?ms = "[mk_memo ''m1'' ''Hello'' [''work''] ''2024-01-02'',
              mk_memo ''m2'' ''bye'' [] ''2024-01-03'']"
  let ?p = "default_params\<lparr>p_query := ''zzz''\<rparr>"
  let ?ms' = "[mk_memo ''m1'' ''Hello'' [''work''] ''2024-01-02'',
               mk_memo ''m2'' ''hello'' [] ''2024-01-03'']"
  let ?p' = "default_params\<lparr>p_query := ''hello'', p_tags_filter := [''work''],
                            p_date_to := Some ''2024-01-02''\<rparr>"
  have e: "filter_stage ?ms ?p = []" by code_simp
  have e': "filter_stage ?ms' ?p' = [mk_memo ''m1'' ''Hello'' [''work''] ''2024-01-02'']"
    by code_simp
  from filter_stage_contract [of ?ms ?p]
  have "filter (spec_keeps ?p) ?ms = filter_stage ?ms ?p" by (rule conjunct1 [THEN sym])
  then have "filter (spec_keeps ?p) ?ms = []" by (simp only: e)
  then have "\<forall>memo \<in> set ?ms. \<not> spec_keeps ?p memo"
    by (simp only: filter_empty_conv)
  then have a: "\<not> spec_keeps ?p (mk_memo ''m1'' ''Hello'' [''work''] ''2024-01-02'')"
      "\<not> spec_keeps ?p (mk_memo ''m2'' ''bye'' [] ''2024-01-03'')"
    by simp_all
  from filter_stage_contract [of ?ms' ?p']
  have "filter (spec_keeps ?p') ?ms' = filter_stage ?ms' ?p'" by (rule conjunct1 [THEN sym])
  then have b: "filter (spec_keeps ?p') ?ms' = [mk_memo ''m1'' ''Hello'' [''work''] ''2024-01-02'']"
    by (simp only: e')
  from a e b show ?thesis by blast
qed

section \<open>Relevance score formula\<close>

text \<open>
  Claim C3, as stated, fails when the occurrence count is the number of occurrences: in
  \<^verbatim>\<open>aaaa\<close> the query \<^verbatim>\<open>aa\<close> occurs at 0, 1 and 2, and with the count 3 the formula
  gives six tenths, but the code counts with \<^verbatim>\<open>str.count\<close>, which finds two, and
  returns one half.
\<close>

theorem relevance_score_all_occurrences_counterexample:
  "match_positions ''aaaa'' ''aa'' = [0, 1, 2]
   \<and> calculate_relevance_score ''aaaa'' ''aa'' None = Inr (1 / 2)
   \<and> calculate_relevance_score ''aaaa'' ''aa'' None
       \<noteq> Inr (min 1 ((real (length (match_positions ''aaaa'' ''aa'')) + 2 + 0 + (1 - 0 / 4)) / 10))"
proof -
  have m: "match_positions ''aaaa'' ''aa'' = [0, 1, 2]" by code_simp
  have c: "calculate_relevance_score ''aaaa'' ''aa'' None = Inr (1 / 2)" by code_simp
  show ?thesis unfolding m c by simp
qed

text \<open>
  Claim C3, amended. For every content, query and tag list, in the arithmetic of the
  code, the relevance score is returned; it is exactly 0.5 for the empty query, and
  otherwise \<^verbatim>\<open>min(1.0, raw / 10.0)\<close> where \<open>raw\<close> is the sum of the number of
  non-overlapping case-insensitive occurrences of the query in the content (the greatest
  number of pairwise non-overlapping occurrences), the title bonus (2 when the query
  occurs in the first line), the tag bonus (1 when some tag contains the query) and the
  position score (1 minus first match index over content length when there is a match).
  It holds for every arithmetic, so for the floating-point one; the score with exact
  arithmetic is the instance at \<open>exact_ops\<close>.
\<close>

theorem relevance_score_formula:
  "calculate_relevance_score_with A content query tags
     = Inr (spec_score_with A content query (get_list tags))
   \<and> calculate_relevance_score content query tags
     = calculate_relevance_score_with exact_ops content query tags"
  using calculate_relevance_score_with_spec calculate_relevance_score_exact by blast

text \<open>Instances of the amended claim C3: a match in the first line and in a tag,
  overlapping occurrences, and the empty query.\<close>

theorem relevance_score_formula_witness:
  "spec_score_with exact_ops ''abc hello'' ''hello'' (get_list (Some [''Hello''])) = 41 / 90
   \<and> spec_score_with exact_ops ''aaaa'' ''aa'' (get_list None) = 1 / 2
   \<and> spec_score_with exact_ops ''abc'' [] (get_list None) = 1 / 2"
proof -
  have "calculate_relevance_score ''abc hello'' ''hello'' (Some [''Hello''])
     = Inr (41 / 90)" by code_simp
  moreover have "calculate_relevance_score ''aaaa'' ''aa'' None = Inr (1 / 2)" by code_simp
  moreover have "calculate_relevance_score ''abc'' [] None = Inr (1 / 2)" by code_simp
  ultimately show ?thesis
    using relevance_score_formula [of exact_ops "''abc hello''" "''hello''" "Some [''Hello'']"]
      relevance_score_formula [of exact_ops "''aaaa''" "''aa''" None]
      relevance_score_formula [of exact_ops "''abc''" "[]" None]
    by simp
qed

section \<open>Snippet extraction\<close>

text \<open>
  Claim C4. For every content and query, the snippet extraction returns the empty list
  when the query or the content is empty, and otherwise one snippet for each index at
  which the query occurs case-insensitively, in ascending order, overlapping occurrences
  included (the scan resumes one character behind the start of a match); for the content
  \<^verbatim>\<open>hello world hello\<close> and the query \<^verbatim>\<open>hello\<close> it returns two entries, and in
  \<^verbatim>\<open>aaa\<close> the query \<^verbatim>\<open>aa\<close> is found at both 0 and 1.
\<close>

theorem extract_snippets_contract:
  "extract_snippet_around_match content query context_chars =
     (if query = [] \<or> content = [] then []
      else map (snippet_at content query context_chars) (match_positions content query))
   \<and> length (extract_snippet_around_match ''hello world hello'' ''hello'' 50) = 2
   \<and> match_positions ''aaa'' ''aa'' = [0, 1]"
proof -
  have "length (extract_snippet_around_match ''hello world hello'' ''hello'' 50) = 2"
    by code_simp
  moreover have "match_positions ''aaa'' ''aa'' = [0, 1]"
    by code_simp
  moreover have "extract_snippet_around_match content query context_chars =
     (if query = [] \<or> content = [] then []
      else map (snippet_at content query context_chars) (match_positions content query))"
    by (simp add: extract_snippet_around_match_def match_positions_def snippets_from_eq)
  ultimately show ?thesis by blast
qed

text \<open>An instance of claim C4 with two occurrences in different case.\<close>

theorem extract_snippets_contract_witness:
  "match_positions ''Hello world hello'' ''hello'' = [0, 12]
   \<and> map (snippet_at ''Hello world hello'' ''hello'' 50) [0, 12]
       = [''**Hello** world hello'', ''Hello world **hello**'']"
proof -
  have m: "match_positions ''Hello world hello'' ''hello'' = [0, 12]"
    by code_simp
  have "extract_snippet_around_match ''Hello world hello'' ''hello'' 50
      = [''**Hello** world hello'', ''Hello world **hello**'']"
    by code_simp
  with m show ?thesis
    using extract_snippets_contract [of "''Hello world hello''" "''hello''" 50]
    by simp
qed

section \<open>Emphasis marking\<close>

text \<open>
  Claim C5, as stated, fails: the emphasis is put by \<^verbatim>\<open>str.replace\<close>, which replaces
  every occurrence. In the snippet of \<^verbatim>\<open>hello world hello\<close> for the match at 0 both
  occurrences of \<^verbatim>\<open>hello\<close> are wrapped, not only the first.
\<close>

theorem highlight_first_only_counterexample:
  "snippet_at ''hello world hello'' ''hello'' 50 0 = ''**hello** world **hello**''
   \<and> snippet_at ''hello world hello'' ''hello'' 50 0 \<noteq> ''**hello** world hello''"
  by code_simp

text \<open>
  Claim C5, amended. For every snippet and non-empty matched substring, the emphasis
  step wraps the first textual occurrence of the substring and marks the text behind
  that occurrence in the same way, so every non-overlapping occurrence, from left to
  right, is wrapped; a snippet without an occurrence is unchanged.
\<close>

theorem highlight_marks_every_occurrence:
  assumes "matched \<noteq> []"
  shows "(\<not> sublist matched snippet \<longrightarrow> highlight snippet matched = snippet)
    \<and> ((\<forall>i<length pre. \<not> prefix matched (drop i (pre @ matched @ rest))) \<longrightarrow>
         highlight (pre @ matched @ rest) matched
           = pre @ ''**'' @ matched @ ''**'' @ highlight rest matched)"
  using assms replace_aux_no_occurrence [of matched snippet]
    replace_aux_first [of matched pre rest "''**'' @ matched @ ''**''"]
  by (simp add: highlight_def py_replace_def)

text \<open>An instance of the amended claim C5.\<close>

theorem highlight_marks_every_occurrence_witness:
  "''hi'' \<noteq> [] \<and> \<not> sublist ''hi'' ''say''
   \<and> highlight ''say'' ''hi'' = ''say''
   \<and> highlight (''say '' @ ''hi'' @ '' hi'') ''hi''
        = ''say '' @ ''**'' @ ''hi'' @ ''**'' @ highlight '' hi'' ''hi''"
proof -
  have h: "''hi'' \<noteq> []" by simp
  have n: "\<not> sublist ''hi'' ''say''" by code_simp
  have "\<forall>i \<in> set [0 ..< 4]. \<not> prefix ''hi'' (drop i (''say '' @ ''hi'' @ '' hi''))"
    by code_simp
  then have f: "\<forall>i<length ''say ''. \<not> prefix ''hi'' (drop i (''say '' @ ''hi'' @ '' hi''))"
    by simp
  show ?thesis
    using h n f highlight_marks_every_occurrence [OF h, of "''say''" "''say ''" "'' hi''"]
    by blast
qed

section \<open>Smart summary: the second pass\<close>

text \<open>
  Claim C6 says that the second pass of the general summary appends only lines that are
  neither headers nor list items, so that no line of the first pass is appended twice.
  The code does not do that: the first pass takes the prefixes \<^verbatim>\<open>#\<close>, \<^verbatim>\<open>-\<close>, \<^verbatim>\<open>*\<close>
  and \<^verbatim>\<open>1.\<close>, the second pass leaves out only \<^verbatim>\<open>#\<close> and \<^verbatim>\<open>-\<close>. For the content
  \<^verbatim>\<open>T\<close>, newline, \<^verbatim>\<open>* item\<close>, no query and the maximal length 500, the first pass
  appends the list item, the summary is under 70 percent of the length, the second pass
  appends the item again, and the summary has it twice.
\<close>

theorem smart_summary_repeats_list_item:
  "header_list_pass [''* item''] 499 [''T''] = [''T'', ''* item'']
   \<and> under_70_percent [''T'', ''* item''] 500
   \<and> regular_pass [''* item''] 499 [''T'', ''* item''] = [''T'', ''* item'', ''* item'']
   \<and> generate_smart_summary (mk_memo ''m1'' (''T'' @ [NL] @ ''* item'') [] ''2024-01-01'') [] 500
       = ''T'' @ [NL] @ ''* item'' @ [NL] @ ''* item''"
  by code_simp

section \<open>Relevance re-sort\<close>

text \<open>
  Claim C7. For every search with an active text query, a response carries exactly the
  formatted notes of the paginated window, as a multiset, and so the same multiset of
  ids: the re-sort reorders the page and pulls no record in from outside the window. When
  the re-sort runs on numeric scores, and always under the summary format, the returned
  page is in descending order of relevance score. The search responds whenever the
  format is not \<open>FULL\<close>.
\<close>

theorem relevance_resort_within_page:
  assumes "p_query params \<noteq> []"
  shows "(\<forall>r. search_memos_enhanced (Response 200 all_memos) params = Inr r \<longrightarrow>
            (\<exists>page. map_result (\<lambda>memo. apply_response_format memo params (p_query params))
                       (page_records all_memos params) = Inr page
               \<and> mset (r_memos r) = mset page
               \<and> image_mset note_id (mset (r_memos r)) = image_mset note_id (mset page)
               \<and> (resort_condition params page \<and> list_all is_num (map relevance_key page)
                    \<longrightarrow> sorted_wrt (\<lambda>a b. score_of b \<le> score_of a) (r_memos r)))
            \<and> (p_response_format params = SUMMARY
                 \<longrightarrow> sorted_wrt (\<lambda>a b. score_of b \<le> score_of a) (r_memos r)))
    \<and> (p_response_format params \<noteq> FULL \<longrightarrow>
          (\<exists>r. search_memos_enhanced (Response 200 all_memos) params = Inr r))"
proof -
  let ?page = "map (\<lambda>memo. format_note memo params (p_query params))
                 (page_records all_memos params)"
  have a: "(\<exists>page. map_result (\<lambda>memo. apply_response_format memo params (p_query params))
                       (page_records all_memos params) = Inr page
               \<and> mset (r_memos r) = mset page
               \<and> image_mset note_id (mset (r_memos r)) = image_mset note_id (mset page)
               \<and> (resort_condition params page \<and> list_all is_num (map relevance_key page)
                    \<longrightarrow> sorted_wrt (\<lambda>a b. score_of b \<le> score_of a) (r_memos r)))
            \<and> (p_response_format params = SUMMARY
                 \<longrightarrow> sorted_wrt (\<lambda>a b. score_of b \<le> score_of a) (r_memos r))"
    if s: "search_memos_enhanced (Response 200 all_memos) params = Inr r" for r
  proof -
    note rs = search_200_Inr(1) [OF s]
    have m: "mset (r_memos r) = mset ?page" by (rule relevance_resort_mset [OF rs])
    have "map_result (\<lambda>memo. apply_response_format memo params (p_query params))
            (page_records all_memos params) = Inr ?page"
      by (rule map_result_format)
    moreover have "image_mset note_id (mset (r_memos r)) = image_mset note_id (mset ?page)"
      by (simp only: m)
    moreover have "sorted_wrt (\<lambda>a b. score_of b \<le> score_of a) (r_memos r)"
      if "resort_condition params ?page \<and> list_all is_num (map relevance_key ?page)"
      using that relevance_resort_sorted [OF rs] by blast
    moreover have "sorted_wrt (\<lambda>a b. score_of b \<le> score_of a) (r_memos r)"
      if "p_response_format params = SUMMARY"
      by (rule relevance_resort_sorted_summary [OF rs that assms])
    ultimately show ?thesis using m by blast
  qed
  show ?thesis
    using a search_returns_non_full [of params all_memos] by blast
qed

text \<open>An instance of claim C7: of two matching records the older has the higher score
  and comes first in the response, before the newer one.\<close>

theorem relevance_resort_within_page_witness:
  "p_query (default_params\<lparr>p_query := ''a''\<rparr>) \<noteq> []
   \<and> (case search_memos_enhanced
          (Response 200 [mk_memo ''old'' ''a a'' [] ''2024-01-01'', mk_memo ''new'' ''b a'' [] ''2024-01-02''])
          (default_params\<lparr>p_query := ''a''\<rparr>) of
         Inr r \<Rightarrow> map note_id (r_memos r) | Inl e \<Rightarrow> [])
       = [Some (JStr ''old''), Some (JStr ''new'')]
   \<and> (\<exists>r. search_memos_enhanced
          (Response 200 [mk_memo ''old'' ''a a'' [] ''2024-01-01'', mk_memo ''new'' ''b a'' [] ''2024-01-02''])
          (default_params\<lparr>p_query := ''a''\<rparr>) = Inr r
        \<and> sorted_wrt (\<lambda>a b. score_of b \<le> score_of a) (r_memos r)
        \<and> (\<exists>page. map_result
               (\<lambda>memo. apply_response_format memo (default_params\<lparr>p_query := ''a''\<rparr>)
                          (p_query (default_params\<lparr>p_query := ''a''\<rparr>)))
               (page_records
                  [mk_memo ''old'' ''a a'' [] ''2024-01-01'', mk_memo ''new'' ''b a'' [] ''2024-01-02'']
                  (default_params\<lparr>p_query := ''a''\<rparr>)) = Inr page
             \<and> mset (r_memos r) = mset page))"
proof -
  let ?p = "default_params\<lparr>p_query := ''a''\<rparr>"
  let ?ms = "[mk_memo ''old'' ''a a'' [] ''2024-01-01'', mk_memo ''new'' ''b a'' [] ''2024-01-02'']"
  have q: "p_query ?p \<noteq> []" by simp
  have f: "p_response_format ?p = SUMMARY" "p_response_format ?p \<noteq> FULL"
    by (simp_all add: default_params_def)
  have e: "(case search_memos_enhanced (Response 200 ?ms) ?p of
         Inr r \<Rightarrow> map note_id (r_memos r) | Inl e \<Rightarrow> [])
       = [Some (JStr ''old''), Some (JStr ''new'')]"
    by code_simp
  note t = relevance_resort_within_page [OF q, of ?ms]
  from t f(2) obtain r where r: "search_memos_enhanced (Response 200 ?ms) ?p = Inr r" by blast
  with t f(1) have "sorted_wrt (\<lambda>a b. score_of b \<le> score_of a) (r_memos r)
        \<and> (\<exists>page. map_result
               (\<lambda>memo. apply_response_format memo ?p (p_query ?p))
               (page_records ?ms ?p) = Inr page
             \<and> mset (r_memos r) = mset page)"
    by blast
  with q e r show ?thesis by blast
qed

section \<open>Formats and the re-sort\<close>

text \<open>
  Claim C10, as stated, fails for the format \<open>FULL\<close>, which copies every requested
  field that a record has: when \<^verbatim>\<open>fields\<close> names \<^verbatim>\<open>relevance_score\<close> and the records
  have a field of that name, the formatted notes carry it, the condition of the re-sort
  holds, and the page leaves the order of creation time. Here the page is new, old by
  creation time and old, new in the response.
\<close>

theorem full_format_resort_counterexample:
  "map (\<lambda>m. get_str (memo_name m))
     (page_records
        [(mk_memo ''old'' ''a'' [] ''2024-01-01'')\<lparr>memo_other := [(''relevance_score'', JNum 2)]\<rparr>,
         (mk_memo ''new'' ''a'' [] ''2024-01-02'')\<lparr>memo_other := [(''relevance_score'', JNum 1)]\<rparr>]
        (post_init (default_params\<lparr>p_query := ''a'', p_response_format := FULL,
                                     p_fields := [''relevance_score'']\<rparr>)))
    = [''new'', ''old'']
   \<and> (case formatted_page
        [(mk_memo ''old'' ''a'' [] ''2024-01-01'')\<lparr>memo_other := [(''relevance_score'', JNum 2)]\<rparr>,
         (mk_memo ''new'' ''a'' [] ''2024-01-02'')\<lparr>memo_other := [(''relevance_score'', JNum 1)]\<rparr>]
        (post_init (default_params\<lparr>p_query := ''a'', p_response_format := FULL,
                                     p_fields := [''relevance_score'']\<rparr>)) of
         Inr page \<Rightarrow>
           resort_condition
             (post_init (default_params\<lparr>p_query := ''a'', p_response_format := FULL,
                                          p_fields := [''relevance_score'']\<rparr>)) page
       | Inl e \<Rightarrow> False)
   \<and> (case search_memos_enhanced (Response 200
        [(mk_memo ''old'' ''a'' [] ''2024-01-01'')\<lparr>memo_other := [(''relevance_score'', JNum 2)]\<rparr>,
         (mk_memo ''new'' ''a'' [] ''2024-01-02'')\<lparr>memo_other := [(''relevance_score'', JNum 1)]\<rparr>])
        (post_init (default_params\<lparr>p_query := ''a'', p_response_format := FULL,
                                     p_fields := [''relevance_score'']\<rparr>)) of
         Inr r \<Rightarrow> map note_id (r_memos r)
       | Inl e \<Rightarrow> [])
      = [Some (JStr ''old''), Some (JStr ''new'')]"
  by code_simp

text \<open>
  Claim C10, amended. A formatted note carries a relevance score exactly when the format
  is summary and the query is non-empty, or the format is full, \<^verbatim>\<open>fields\<close> names
  \<^verbatim>\<open>relevance_score\<close> and the record has a field of that name; it carries match snippets
  exactly when the format is summary, the query is non-empty and there is a snippet, or
  the format is full and the field is copied in the same way. Consequently, for the
  formats minimal and id_only, and for full when \<^verbatim>\<open>fields\<close> does not name
  \<^verbatim>\<open>relevance_score\<close> or no record has such a field, the condition of the re-sort is
  never satisfied, the search responds with the formatted page as it is, and the records
  of the page are in descending order of creation time, also when a text query is active.
\<close>

theorem relevance_attached_by_format:
  "(\<forall>memo f. apply_response_format memo params query = Inr f \<longrightarrow>
       ((map_of f ''relevance_score'' \<noteq> None) =
          ((p_response_format params = SUMMARY \<and> query \<noteq> [])
           \<or> (p_response_format params = FULL \<and> ''relevance_score'' \<in> set (p_fields params)
               \<and> memo_lookup memo ''relevance_score'' \<noteq> None)))
       \<and> ((map_of f ''match_snippets'' \<noteq> None) =
          ((p_response_format params = SUMMARY \<and> query \<noteq> []
              \<and> extract_snippet_around_match (get_str (memo_content memo)) query 50 \<noteq> [])
           \<or> (p_response_format params = FULL \<and> ''match_snippets'' \<in> set (p_fields params)
               \<and> memo_lookup memo ''match_snippets'' \<noteq> None))))
   \<and> (p_response_format params = MINIMAL \<or> p_response_format params = ID_ONLY
        \<or> (p_response_format params = FULL
            \<and> (''relevance_score'' \<notin> set (p_fields params)
                \<or> (\<forall>memo \<in> set all_memos. memo_lookup memo ''relevance_score'' = None)))
       \<longrightarrow> (\<exists>page. map_result (\<lambda>memo. apply_response_format memo params (p_query params))
                       (page_records all_memos params) = Inr page
               \<and> \<not> resort_condition params page
               \<and> (\<exists>r. search_memos_enhanced (Response 200 all_memos) params = Inr r
                       \<and> r_memos r = page))
           \<and> sorted_wrt (\<lambda>a b. get_str (memo_createTime b) \<le> get_str (memo_createTime a))
                (page_records all_memos params))"
proof -
  have a: "((map_of f ''relevance_score'' \<noteq> None) =
          ((p_response_format params = SUMMARY \<and> query \<noteq> [])
           \<or> (p_response_format params = FULL \<and> ''relevance_score'' \<in> set (p_fields params)
               \<and> memo_lookup memo ''relevance_score'' \<noteq> None)))
       \<and> ((map_of f ''match_snippets'' \<noteq> None) =
          ((p_response_format params = SUMMARY \<and> query \<noteq> []
              \<and> extract_snippet_around_match (get_str (memo_content memo)) query 50 \<noteq> [])
           \<or> (p_response_format params = FULL \<and> ''match_snippets'' \<in> set (p_fields params)
               \<and> memo_lookup memo ''match_snippets'' \<noteq> None)))"
    if f: "apply_response_format memo params query = Inr f" for memo f
  proof -
    obtain s where s: "calculate_relevance_score (get_str (memo_content memo)) query
        (Some (get_list (memo_tags memo))) = Inr s"
      using calculate_relevance_score_total by blast
    have "(map_of f ''relevance_score'' \<noteq> None) =
          ((p_response_format params = SUMMARY \<and> query \<noteq> [])
           \<or> (p_response_format params = FULL \<and> ''relevance_score'' \<in> set (p_fields params)
               \<and> memo_lookup memo ''relevance_score'' \<noteq> None))"
      unfolding apply_response_format_relevance [OF f] s
      by (cases "p_response_format params") simp_all
    moreover have "(map_of f ''match_snippets'' \<noteq> None) =
          ((p_response_format params = SUMMARY \<and> query \<noteq> []
              \<and> extract_snippet_around_match (get_str (memo_content memo)) query 50 \<noteq> [])
           \<or> (p_response_format params = FULL \<and> ''match_snippets'' \<in> set (p_fields params)
               \<and> memo_lookup memo ''match_snippets'' \<noteq> None))"
      unfolding apply_response_format_snippets [OF f]
      by (cases "p_response_format params") simp_all
    ultimately show ?thesis by blast
  qed
  let ?page = "map (\<lambda>memo. format_note memo params (p_query params))
                 (page_records all_memos params)"
  have b: "(\<exists>page. map_result (\<lambda>memo. apply_response_format memo params (p_query params))
                       (page_records all_memos params) = Inr page
               \<and> \<not> resort_condition params page
               \<and> (\<exists>r. search_memos_enhanced (Response 200 all_memos) params = Inr r
                       \<and> r_memos r = page))"
    if c: "p_response_format params = MINIMAL \<or> p_response_format params = ID_ONLY
        \<or> (p_response_format params = FULL
            \<and> (''relevance_score'' \<notin> set (p_fields params)
                \<or> (\<forall>memo \<in> set all_memos. memo_lookup memo ''relevance_score'' = None)))"
  proof -
    have nokey: "map_of f ''relevance_score'' = None" if "f \<in> set ?page" for f
    proof -
      from that obtain m where m: "m \<in> set (page_records all_memos params)"
        and fm: "f = format_note m params (p_query params)" by auto
      from m page_records_subset have "m \<in> set all_memos" by blast
      with c fm show ?thesis
        by (cases "p_response_format params") (auto simp: format_note_relevance)
    qed
    then have n: "\<not> resort_condition params ?page"
      by (auto simp: resort_condition_def list_ex_iff)
    from nokey have rr: "relevance_resort params ?page = Inr ?page"
      by (rule relevance_resort_no_key)
    from search_200_returns [OF rr] obtain r where
      r: "search_memos_enhanced (Response 200 all_memos) params = Inr r" by blast
    from search_200_Inr(1) [OF r] rr have "r_memos r = ?page" by simp
    with r n map_result_format [of params "p_query params" "page_records all_memos params"]
    show ?thesis by blast
  qed
  show ?thesis
    using a b page_records_sorted [of all_memos params] by blast
qed

text \<open>An instance of the amended claim C10: the minimal format with an active query.\<close>

theorem relevance_attached_by_format_witness:
  "p_response_format (default_params\<lparr>p_query := ''a'', p_response_format := MINIMAL\<rparr>) = MINIMAL
   \<and> (\<exists>page. map_result
          (\<lambda>memo. apply_response_format memo
             (default_params\<lparr>p_query := ''a'', p_response_format := MINIMAL\<rparr>)
             (p_query (default_params\<lparr>p_query := ''a'', p_response_format := MINIMAL\<rparr>)))
          (page_records [mk_memo ''old'' ''a'' [] ''2024-01-01'', mk_memo ''new'' ''a'' [] ''2024-01-02'']
             (default_params\<lparr>p_query := ''a'', p_response_format := MINIMAL\<rparr>)) = Inr page
        \<and> \<not> resort_condition (default_params\<lparr>p_query := ''a'', p_response_format := MINIMAL\<rparr>) page
        \<and> (\<exists>r. search_memos_enhanced
                  (Response 200 [mk_memo ''old'' ''a'' [] ''2024-01-01'',
                                 mk_memo ''new'' ''a'' [] ''2024-01-02''])
                  (default_params\<lparr>p_query := ''a'', p_response_format := MINIMAL\<rparr>) = Inr r
               \<and> r_memos r = page))"
proof -
  let ?p = "default_params\<lparr>p_query := ''a'', p_response_format := MINIMAL\<rparr>"
  have h: "p_response_format ?p = MINIMAL" by simp
  then have "p_response_format ?p = MINIMAL \<or> p_response_format ?p = ID_ONLY
        \<or> (p_response_format ?p = FULL
            \<and> (''relevance_score'' \<notin> set (p_fields ?p)
                \<or> (\<forall>memo \<in> set [mk_memo ''old'' ''a'' [] ''2024-01-01'',
                                      mk_memo ''new'' ''a'' [] ''2024-01-02''].
                      memo_lookup memo ''relevance_score'' = None)))"
    by (rule disjI1)
  with relevance_attached_by_format
         [of ?p "''a''" "[mk_memo ''old'' ''a'' [] ''2024-01-01'', mk_memo ''new'' ''a'' [] ''2024-01-02'']"]
  show ?thesis using h by blast
qed

end
